theory Spec2Isabelle
  imports Complex_Main "HOL-Library.Multiset"
begin

section \<open>HeroCube: the 3x3x3 cube of hero-cube.tsx\<close>

subsection \<open>Data\<close>

text \<open>
  \<^verbatim>\<open>type Axis = 'x' | 'y' | 'z'\<close>
\<close>

datatype Axis = X | Y | Z

text \<open>
  \<^verbatim>\<open>m.userData = { i, j, k }\<close>: the logical coordinates of a cubelet. They are JavaScript
  numbers that only ever hold \<open>-1\<close>, \<open>0\<close>, \<open>1\<close> (and \<open>-0\<close>, which \<open>===\<close> identifies
  with \<open>0\<close>), so they are integers here.
\<close>

record indices =
  i :: int
  j :: int
  k :: int

text \<open>
  \<open>rotation.x\<close>, \<open>rotation.y\<close>, \<open>rotation.z\<close> of an \<open>Object3D\<close> (Euler angles, radians).
\<close>

record euler =
  rot_x :: real
  rot_y :: real
  rot_z :: real

text \<open>
  \<open>Object3D.attach\<close> re-parents an object and keeps its world transform: the local matrix
  of the object is multiplied from the left by the matrix of the parent it leaves
  (\<open>Bake\<close>, when a cubelet goes from the turn group back to the root) or by the inverse of
  the matrix of the parent it enters (\<open>Unbake\<close>, when a cubelet goes from the root into the
  turn group). The turn group sits at the origin with unit scale, so its matrix is given
  by its Euler rotation. The local transform of a cubelet is kept as the list of these
  factors, the latest first, on top of the position set at construction.
\<close>

datatype xf = Bake euler | Unbake euler

record cubelet =
  userData :: indices
  position :: "real \<times> real \<times> real"
  baked :: "xf list"

text \<open>
  The mutable state of the effect: the \<open>cubelets\<close> array (a cubelet is named by its
  index in it), the children of \<open>turnGroup\<close> in order (every other cubelet is a child of
  \<open>root\<close>, whose child order no code reads), the turn group's position and rotation, the
  \<open>let\<close> variables of the turn script, and the two quaternions of the cursor tracking,
  whose type belongs to the graphics library and is a parameter here.
\<close>

record 'q hero =
  cubelets :: "cubelet list"
  turnGroup_children :: "nat list"
  turnGroup_position :: "real \<times> real \<times> real"
  turnGroup_rotation :: euler
  nextTurnTime :: real
  turning :: bool
  turnAxis :: Axis
  layer :: int
  angle :: real
  dir :: int
  root_quaternion :: 'q
  targetQuat :: 'q

subsection \<open>Construction\<close>

definition spacing :: real where
  "spacing = 1.08"

definition turnDuration :: real where
  "turnDuration = 0.6"

text \<open>The body of the innermost construction loop: one mesh at grid point \<open>(a, b, c)\<close>.\<close>

definition mesh :: "int \<Rightarrow> int \<Rightarrow> int \<Rightarrow> cubelet" where
  "mesh a b c =
     \<lparr>userData = \<lparr>i = a, j = b, k = c\<rparr>,
      position = (real_of_int a * spacing, real_of_int b * spacing, real_of_int c * spacing),
      baked = []\<rparr>"

text \<open>
  \<^verbatim>\<open>for (let i = -1; i <= 1; i++) for (let j = -1; j <= 1; j++) for (let k = -1; k <= 1; k++)
    { ...; cubelets.push(m) }\<close>
\<close>

definition build_cubelets :: "cubelet list" where
  "build_cubelets = [mesh a b c. a \<leftarrow> [-1..1], b \<leftarrow> [-1..1], c \<leftarrow> [-1..1]]"

text \<open>
  The state when the effect has set everything up: \<open>q0\<close> is the quaternion of the fresh
  \<open>root\<close> group, which \<open>targetQuat\<close> copies.
\<close>

definition hero_init :: "'q \<Rightarrow> 'q hero" where
  "hero_init q0 =
     \<lparr>cubelets = build_cubelets,
      turnGroup_children = [],
      turnGroup_position = (0, 0, 0),
      turnGroup_rotation = \<lparr>rot_x = 0, rot_y = 0, rot_z = 0\<rparr>,
      nextTurnTime = 1.8,
      turning = False,
      turnAxis = Y,
      layer = 0,
      angle = 0,
      dir = 1,
      root_quaternion = q0,
      targetQuat = q0\<rparr>"

subsection \<open>Scene graph operations\<close>

text \<open>
  \<open>root.attach(child)\<close>: a child of the turn group leaves it and takes the turn group's
  transform along; a child of the root stays where it is.
\<close>

definition root_attach :: "nat \<Rightarrow> 'q hero \<Rightarrow> 'q hero" where
  "root_attach child s =
     (if child \<in> set (turnGroup_children s)
      then s\<lparr>cubelets := (cubelets s)[child :=
                 (cubelets s ! child)\<lparr>baked := Bake (turnGroup_rotation s) # baked (cubelets s ! child)\<rparr>],
             turnGroup_children := remove1 child (turnGroup_children s)\<rparr>
      else s)"

text \<open>
  \<open>turnGroup.attach(c)\<close>: \<open>add\<close> removes the object from its parent and pushes it at the
  end of the new parent's children.
\<close>

definition turnGroup_attach :: "nat \<Rightarrow> 'q hero \<Rightarrow> 'q hero" where
  "turnGroup_attach c s =
     (if c \<in> set (turnGroup_children s)
      then s\<lparr>turnGroup_children := remove1 c (turnGroup_children s) @ [c]\<rparr>
      else s\<lparr>cubelets := (cubelets s)[c :=
                 (cubelets s ! c)\<lparr>baked := Unbake (turnGroup_rotation s) # baked (cubelets s ! c)\<rparr>],
             turnGroup_children := turnGroup_children s @ [c]\<rparr>)"

text \<open>The membership test that \<open>attachLayer\<close> and \<open>bakeAndUpdateIndices\<close> both write out.\<close>

definition in_layer :: "Axis \<Rightarrow> int \<Rightarrow> indices \<Rightarrow> bool" where
  "in_layer a l u = ((a = X \<and> i u = l) \<or> (a = Y \<and> j u = l) \<or> (a = Z \<and> k u = l))"

text \<open>
  \<^verbatim>\<open>while (turnGroup.children.length) { const child = turnGroup.children[0]; root.attach(child) }\<close>
\<close>

function detach_all :: "'q hero \<Rightarrow> 'q hero" where
  "detach_all s =
     (case turnGroup_children s of
        [] \<Rightarrow> s
      | child # _ \<Rightarrow> detach_all (root_attach child s))"
  by pat_completeness auto
termination
  by (relation "measure (\<lambda>s. length (turnGroup_children s))") (auto simp: root_attach_def)

declare detach_all.simps [simp del]

definition attachLayer :: "Axis \<Rightarrow> int \<Rightarrow> 'q hero \<Rightarrow> 'q hero" where
  "attachLayer a l s =
     (let s1 = s\<lparr>turnGroup_position := (0, 0, 0),
                 turnGroup_rotation := \<lparr>rot_x = 0, rot_y = 0, rot_z = 0\<rparr>\<rparr>;
          s2 = detach_all s1
      in foldl (\<lambda>t c. if in_layer a l (userData (cubelets t ! c)) then turnGroup_attach c t else t)
           s2 [0..<length (cubelets s2)])"

text \<open>The inner function \<open>rot\<close> of \<open>bakeAndUpdateIndices\<close>.\<close>

definition rot :: "Axis \<Rightarrow> int \<Rightarrow> indices \<Rightarrow> indices" where
  "rot a clockwise v =
     (if a = X then
        \<lparr>i = i v, j = (if clockwise > 0 then - k v else k v), k = (if clockwise > 0 then j v else - j v)\<rparr>
      else if a = Y then
        \<lparr>i = (if clockwise > 0 then k v else - k v), j = j v, k = (if clockwise > 0 then - i v else i v)\<rparr>
      else
        \<lparr>i = (if clockwise > 0 then - j v else j v), j = (if clockwise > 0 then i v else - i v), k = k v\<rparr>)"

definition bakeAndUpdateIndices :: "Axis \<Rightarrow> int \<Rightarrow> int \<Rightarrow> 'q hero \<Rightarrow> 'q hero" where
  "bakeAndUpdateIndices a l clockwise s =
     (let children = turnGroup_children s;
          s1 = foldl (\<lambda>t child. root_attach child t) s children;
          s2 = s1\<lparr>cubelets :=
                    map (\<lambda>c. if in_layer a l (userData c)
                              then c\<lparr>userData := rot a clockwise (userData c)\<rparr> else c)
                      (cubelets s1)\<rparr>
      in s2\<lparr>turnGroup_rotation := \<lparr>rot_x = 0, rot_y = 0, rot_z = 0\<rparr>\<rparr>)"

subsection \<open>The animation loop\<close>

text \<open>
  \<^verbatim>\<open>const pick = (arr) => arr[Math.floor(Math.random() * arr.length)]!\<close>, with the value
  \<open>r\<close> of \<open>Math.random()\<close> as an argument. \<open>Math.random()\<close> returns a number in \<open>[0, 1)\<close>,
  and for such an \<open>r\<close> the index is in range; every statement about picked values
  below is made for such \<open>r\<close> only (\<open>valid_input\<close>).
\<close>

definition pick :: "'a list \<Rightarrow> real \<Rightarrow> 'a" where
  "pick arr r = arr ! nat \<lfloor>r * real (length arr)\<rfloor>"

text \<open>
  \<open>addAxisRotation\<close> and \<open>setAxisRotation\<close> are only ever applied to the turn group; they
  act on its \<open>rotation\<close>.
\<close>

definition addAxisRotation :: "euler \<Rightarrow> Axis \<Rightarrow> real \<Rightarrow> euler" where
  "addAxisRotation e a delta =
     (if a = X then e\<lparr>rot_x := rot_x e + delta\<rparr>
      else if a = Y then e\<lparr>rot_y := rot_y e + delta\<rparr>
      else e\<lparr>rot_z := rot_z e + delta\<rparr>)"

definition setAxisRotation :: "euler \<Rightarrow> Axis \<Rightarrow> real \<Rightarrow> euler" where
  "setAxisRotation e a v =
     (if a = X then e\<lparr>rot_x := v\<rparr>
      else if a = Y then e\<lparr>rot_y := v\<rparr>
      else e\<lparr>rot_z := v\<rparr>)"

text \<open>
  What one run of the animation callback reads from outside: the clock's delta and the
  values of the calls of \<open>Math.random()\<close> it may make, in the order of the source.
  Numbers are reals here; the source computes with doubles.
\<close>

record frame_input =
  dt :: real
  rnd_axis :: real
  rnd_layer :: real
  rnd_dir :: real
  rnd_next :: real

text \<open>
  The first half of the callback: the slerp toward the target (the library's
  \<open>Quaternion.slerp\<close> is the parameter \<open>slerp\<close>), the countdown, and the start of a
  turn when one is due.
\<close>

definition frame_begin :: "('q \<Rightarrow> 'q \<Rightarrow> real \<Rightarrow> 'q) \<Rightarrow> frame_input \<Rightarrow> 'q hero \<Rightarrow> 'q hero" where
  "frame_begin slerp inp s =
     (let s1 = s\<lparr>root_quaternion := slerp (root_quaternion s) (targetQuat s) (min 1 (dt inp * 5))\<rparr>;
          s2 = s1\<lparr>nextTurnTime := nextTurnTime s1 - dt inp\<rparr>
      in if \<not> turning s2 \<and> nextTurnTime s2 \<le> 0
         then (let a = pick [X, Y, Z] (rnd_axis inp);
                   l = pick [-1, 0, 1] (rnd_layer inp);
                   d = (if rnd_dir inp > 0.5 then 1 else -1)
               in attachLayer a l (s2\<lparr>turning := True, turnAxis := a, layer := l, angle := 0, dir := d\<rparr>))
         else s2)"

text \<open>The second half: \<^verbatim>\<open>if (turning) { ... }\<close>.\<close>

definition frame_turn :: "frame_input \<Rightarrow> 'q hero \<Rightarrow> 'q hero" where
  "frame_turn inp s =
     (if turning s
      then (let step = pi / 2 / turnDuration * dt inp * real_of_int (dir s);
                s1 = s\<lparr>angle := angle s + \<bar>step\<bar>\<rparr>;
                s2 = s1\<lparr>turnGroup_rotation := addAxisRotation (turnGroup_rotation s1) (turnAxis s1) step\<rparr>
            in if angle s2 \<ge> pi / 2 - 1 / 1000
               then (let s3 = s2\<lparr>turnGroup_rotation :=
                                   setAxisRotation (turnGroup_rotation s2) (turnAxis s2)
                                     (pi / 2 * real_of_int (dir s2))\<rparr>;
                         s4 = bakeAndUpdateIndices (turnAxis s3) (layer s3) (dir s3) s3;
                         s5 = s4\<lparr>turnGroup_rotation := setAxisRotation (turnGroup_rotation s4) (turnAxis s4) 0\<rparr>
                     in s5\<lparr>turning := False, nextTurnTime := 1.6 + rnd_next inp * 1.2\<rparr>)
               else s2)
      else s)"

text \<open>The callback given to \<open>renderer.setAnimationLoop\<close>; rendering changes nothing here.\<close>

definition frame :: "('q \<Rightarrow> 'q \<Rightarrow> real \<Rightarrow> 'q) \<Rightarrow> frame_input \<Rightarrow> 'q hero \<Rightarrow> 'q hero" where
  "frame slerp inp s = frame_turn inp (frame_begin slerp inp s)"

subsection \<open>Cursor tracking\<close>















subsection \<open>Teardown\<close>

text \<open>
  The state outside the effect that its body and its cleanup touch: the resize observer,
  the listeners on \<open>window\<close>, the renderer's animation loop, the resources the body
  allocates, the children of the container element and \<open>rendererRef.current\<close>.
\<close>

datatype listener = OnPointerMove | OtherListener nat

datatype node = Canvas | OtherNode nat

datatype dom_error = NotFoundError

record outside =
  observing :: bool
  window_listeners :: "(string \<times> listener) list"
  animationLoop_set :: bool
  renderer_disposed :: bool
  pmrem_disposed :: bool
  envTexture_disposed :: bool
  geometry_disposed :: bool
  material_disposed :: bool
  container_children :: "node list"
  rendererRef_current :: "node option"

text \<open>
  \<open>window.addEventListener\<close> ignores a listener that is already registered for the type;
  \<open>removeEventListener\<close> removes the registration if there is one.
\<close>

definition addEventListener :: "string \<Rightarrow> listener \<Rightarrow> 'a outside_scheme \<Rightarrow> 'a outside_scheme" where
  "addEventListener ty f w =
     (if (ty, f) \<in> set (window_listeners w) then w
      else w\<lparr>window_listeners := window_listeners w @ [(ty, f)]\<rparr>)"

definition removeEventListener :: "string \<Rightarrow> listener \<Rightarrow> 'a outside_scheme \<Rightarrow> 'a outside_scheme" where
  "removeEventListener ty f w = w\<lparr>window_listeners := remove1 (ty, f) (window_listeners w)\<rparr>"

text \<open>\<open>container.appendChild\<close> moves the node to the end of the children.\<close>

definition appendChild :: "node \<Rightarrow> 'a outside_scheme \<Rightarrow> 'a outside_scheme" where
  "appendChild n w = w\<lparr>container_children := remove1 n (container_children w) @ [n]\<rparr>"

text \<open>\<open>container.removeChild\<close> throws a \<open>NotFoundError\<close> when the node is not a child.\<close>

definition removeChild :: "node \<Rightarrow> 'a outside_scheme \<Rightarrow> dom_error + 'a outside_scheme" where
  "removeChild n w =
     (if n \<in> set (container_children w)
      then Inr (w\<lparr>container_children := remove1 n (container_children w)\<rparr>)
      else Inl NotFoundError)"

text \<open>
  What the body of the effect does to the outside: it appends the canvas, stores the
  renderer in the ref, allocates the PMREM generator, the environment texture, the
  geometry and the material, registers the pointer listener, starts the animation loop
  and observes the container.
\<close>

definition mount :: "'a outside_scheme \<Rightarrow> 'a outside_scheme" where
  "mount w =
     (let w1 = appendChild Canvas (w\<lparr>renderer_disposed := False\<rparr>);
          w2 = w1\<lparr>rendererRef_current := Some Canvas\<rparr>;
          w3 = w2\<lparr>pmrem_disposed := False, envTexture_disposed := False,
                   geometry_disposed := False, material_disposed := False\<rparr>;
          w4 = addEventListener ''pointermove'' OnPointerMove w3;
          w5 = w4\<lparr>animationLoop_set := True\<rparr>
      in w5\<lparr>observing := True\<rparr>)"

text \<open>
  The function the effect returns. The steps before \<open>removeChild\<close> cannot fail; when
  \<open>removeChild\<close> throws, the state they have reached is what is left behind, so the
  result pairs the error, if any, with the final state.
\<close>

definition teardown :: "'a outside_scheme \<Rightarrow> dom_error option \<times> 'a outside_scheme" where
  "teardown w =
     (let w1 = w\<lparr>observing := False\<rparr>;
          w2 = removeEventListener ''pointermove'' OnPointerMove w1;
          w3 = w2\<lparr>animationLoop_set := False\<rparr>;
          w4 = w3\<lparr>renderer_disposed := True\<rparr>;
          w5 = w4\<lparr>pmrem_disposed := True\<rparr>
      in case removeChild Canvas w5 of
           Inr w6 \<Rightarrow> (None, w6)
         | Inl e \<Rightarrow> (Some e, w5))"

text \<open>
  The body of the effect builds the scene and the camera and then constructs the renderer,
  before it touches anything outside. \<open>new WebGLRenderer\<close> throws when no WebGL context
  can be created; nothing in the body catches that, so the body ends there.
\<close>

definition HeroCube_effect :: "'e option \<Rightarrow> 'a outside_scheme \<Rightarrow> 'e option \<times> 'a outside_scheme" where
  "HeroCube_effect renderer_failure w =
     (case renderer_failure of Some e \<Rightarrow> (Some e, w) | None \<Rightarrow> (None, mount w))"

section \<open>Buttons\<close>

text \<open>
  A button component keeps its flags in \<open>useState\<close> cells. A \<open>setTimeout(f, ms)\<close> that has
  not fired yet is a pair of the delay and the callback in \<open>timers\<close>; the callbacks of a
  component are the constructors of a datatype. An event is a click on the rendered
  element or the expiry of the pending timer at a position of \<open>timers\<close>.
\<close>

record loading_flag =
  isLoading :: bool

record 'cb timed_button = loading_flag +
  timers :: "(nat \<times> 'cb) list"

datatype event = Click | Timeout nat

definition fire ::
  "('cb \<Rightarrow> ('cb, 'z) timed_button_scheme \<Rightarrow> ('cb, 'z) timed_button_scheme) \<Rightarrow> nat \<Rightarrow>
   ('cb, 'z) timed_button_scheme \<Rightarrow> ('cb, 'z) timed_button_scheme" where
  "fire run n s =
     (if n < length (timers s)
      then run (snd (timers s ! n)) (s\<lparr>timers := take n (timers s) @ drop (Suc n) (timers s)\<rparr>)
      else s)"

subsection \<open>GetStartedButton and SignInButton (cta-buttons.tsx)\<close>

text \<open>Both are links to \<open>/signin\<close> whose click handler only sets the flag.\<close>

definition GetStartedButton_init :: loading_flag where
  "GetStartedButton_init = \<lparr>isLoading = False\<rparr>"

definition GetStartedButton_handleClick :: "loading_flag \<Rightarrow> loading_flag" where
  "GetStartedButton_handleClick s = s\<lparr>isLoading := True\<rparr>"

definition GetStartedButton_step :: "loading_flag \<Rightarrow> event \<Rightarrow> loading_flag" where
  "GetStartedButton_step s ev =
     (case ev of Click \<Rightarrow> GetStartedButton_handleClick s | Timeout n \<Rightarrow> s)"

definition SignInButton_init :: loading_flag where
  "SignInButton_init = \<lparr>isLoading = False\<rparr>"

definition SignInButton_handleClick :: "loading_flag \<Rightarrow> loading_flag" where
  "SignInButton_handleClick s = s\<lparr>isLoading := True\<rparr>"

definition SignInButton_step :: "loading_flag \<Rightarrow> event \<Rightarrow> loading_flag" where
  "SignInButton_step s ev =
     (case ev of Click \<Rightarrow> SignInButton_handleClick s | Timeout n \<Rightarrow> s)"

subsection \<open>WatchDemoButton (cta-buttons.tsx)\<close>

text \<open>\<^verbatim>\<open>() => setIsLoading(false)\<close>\<close>

datatype watch_cb = ResetLoading

definition WatchDemoButton_init :: "watch_cb timed_button" where
  "WatchDemoButton_init = \<lparr>isLoading = False, timers = []\<rparr>"

definition WatchDemoButton_handleClick :: "watch_cb timed_button \<Rightarrow> watch_cb timed_button" where
  "WatchDemoButton_handleClick s =
     (s\<lparr>isLoading := True\<rparr>)\<lparr>timers := timers s @ [(2000, ResetLoading)]\<rparr>"

definition WatchDemoButton_run :: "watch_cb \<Rightarrow> watch_cb timed_button \<Rightarrow> watch_cb timed_button" where
  "WatchDemoButton_run cb s = (case cb of ResetLoading \<Rightarrow> s\<lparr>isLoading := False\<rparr>)"

text \<open>The button is rendered with \<open>disabled={isLoading}\<close>.\<close>

definition WatchDemoButton_step :: "watch_cb timed_button \<Rightarrow> event \<Rightarrow> watch_cb timed_button" where
  "WatchDemoButton_step s ev =
     (case ev of
        Click \<Rightarrow> if isLoading s then s else WatchDemoButton_handleClick s
      | Timeout n \<Rightarrow> fire WatchDemoButton_run n s)"

subsection \<open>NotifyMeButton\<close>

text \<open>
  \<open>FinishLoading\<close> is the callback of the outer \<open>setTimeout\<close>, \<open>ResetNotified\<close> the one of
  the inner.
\<close>

datatype notify_cb = FinishLoading | ResetNotified

record notify_button = "notify_cb timed_button" +
  isNotified :: bool

definition NotifyMeButton_init :: notify_button where
  "NotifyMeButton_init = \<lparr>isLoading = False, timers = [], isNotified = False\<rparr>"

definition handleNotifyMe :: "notify_button \<Rightarrow> notify_button" where
  "handleNotifyMe s = (s\<lparr>isLoading := True\<rparr>)\<lparr>timers := timers s @ [(1500, FinishLoading)]\<rparr>"

definition NotifyMeButton_run :: "notify_cb \<Rightarrow> notify_button \<Rightarrow> notify_button" where
  "NotifyMeButton_run cb s =
     (case cb of
        FinishLoading \<Rightarrow>
          (s\<lparr>isLoading := False, isNotified := True\<rparr>)\<lparr>timers := timers s @ [(3000, ResetNotified)]\<rparr>
      | ResetNotified \<Rightarrow> s\<lparr>isNotified := False\<rparr>)"

text \<open>
  While \<open>isNotified\<close> holds the component renders a button without a click handler;
  otherwise it renders one with \<open>disabled={isLoading}\<close>.
\<close>

definition NotifyMeButton_step :: "notify_button \<Rightarrow> event \<Rightarrow> notify_button" where
  "NotifyMeButton_step s ev =
     (case ev of
        Click \<Rightarrow> if isNotified s then s else if isLoading s then s else handleNotifyMe s
      | Timeout n \<Rightarrow> fire NotifyMeButton_run n s)"

subsection \<open>SignOutButton (sign-out-button.tsx)\<close>

text \<open>
  How the awaited \<open>signOut\<close> call ends: it resolves, it throws the error \<open>e\<close>, or it never
  settles.
\<close>

datatype 'e outcome = Resolved | Rejected 'e | Pending

record 'e signout_button = loading_flag +
  console :: "(string \<times> 'e) list"

definition SignOutButton_init :: "'e signout_button" where
  "SignOutButton_init = \<lparr>isLoading = False, console = []\<rparr>"

definition handleSignOut :: "'e outcome \<Rightarrow> 'e signout_button \<Rightarrow> 'e signout_button" where
  "handleSignOut res s =
     (let s1 = s\<lparr>isLoading := True\<rparr>
      in case res of
           Rejected e \<Rightarrow> (s1\<lparr>isLoading := False\<rparr>)\<lparr>console := console s1 @ [(''Sign out error:'', e)]\<rparr>
         | _ \<Rightarrow> s1)"

text \<open>A click on the button, rendered with \<open>disabled={isLoading}\<close>.\<close>

definition SignOutButton_click :: "'e signout_button \<Rightarrow> 'e outcome \<Rightarrow> 'e signout_button" where
  "SignOutButton_click s res = (if isLoading s then s else handleSignOut res s)"

section \<open>Pages\<close>

text \<open>
  \<open>auth()\<close> returns a session or \<open>null\<close>; the user of a session and the name and image of
  a user may be missing.
\<close>

record user =
  name :: "string option"
  image :: "string option"

record session =
  user :: "user option"

text \<open>A page either redirects (\<open>redirect\<close> does not return) or renders.\<close>

datatype 'v response = Redirect string | Render 'v

text \<open>\<^verbatim>\<open>session?.user\<close>\<close>

definition session_user :: "session option \<Rightarrow> user option" where
  "session_user sess = (case sess of None \<Rightarrow> None | Some x \<Rightarrow> user x)"

text \<open>The landing page that \<open>Home\<close> renders reads nothing from the session.\<close>

definition Home :: "session option \<Rightarrow> unit response" where
  "Home sess = (if session_user sess \<noteq> None then Redirect ''/home'' else Render ())"

text \<open>What the markup of \<open>ComingSoon\<close> takes from the session.\<close>

record coming_soon_view =
  avatar_src :: string
  avatar_alt :: string
  shown_name :: "string option"

definition ComingSoon :: "session option \<Rightarrow> coming_soon_view response" where
  "ComingSoon sess =
     (case session_user sess of
        None \<Rightarrow> Redirect ''/''
      | Some u \<Rightarrow>
          Render \<lparr>avatar_src = (case image u of None \<Rightarrow> ''/placeholder-avatar.png'' | Some x \<Rightarrow> x),
                  avatar_alt = (case name u of None \<Rightarrow> ''User'' | Some n \<Rightarrow> n),
                  shown_name = name u\<rparr>)"

text \<open>
  Both page functions start with \<^verbatim>\<open>const session = await auth()\<close>, outside any \<open>try\<close>:
  when \<open>auth()\<close> rejects with \<open>e\<close> the page function rejects with \<open>e\<close>, and otherwise it
  goes on with the session.
\<close>

definition Home_page :: "'e + session option \<Rightarrow> 'e + unit response" where
  "Home_page awaited = (case awaited of Inl e \<Rightarrow> Inl e | Inr sess \<Rightarrow> Inr (Home sess))"

definition ComingSoon_page :: "'e + session option \<Rightarrow> 'e + coming_soon_view response" where
  "ComingSoon_page awaited = (case awaited of Inl e \<Rightarrow> Inl e | Inr sess \<Rightarrow> Inr (ComingSoon sess))"

text \<open>
  The effect of the \<open>SignIn\<close> page: \<^verbatim>\<open>void signIn("google", { callbackUrl: "/home" })\<close>.
  The promise is dropped, so the effect returns whatever becomes of the call; the result
  is the arguments of the call and the rejection, if any, that nothing handles.
\<close>

record signIn_args =
  provider :: string
  callbackUrl :: string

definition SignIn_effect :: "'e outcome \<Rightarrow> signIn_args \<times> 'e option" where
  "SignIn_effect res =
     (\<lparr>provider = ''google'', callbackUrl = ''/home''\<rparr>,
      (case res of Rejected e \<Rightarrow> Some e | _ \<Rightarrow> None))"

section \<open>Notions of the specification\<close>

text \<open>The coordinate of a cubelet along an axis.\<close>

definition coord :: "Axis \<Rightarrow> indices \<Rightarrow> int" where
  "coord a u = (case a of X \<Rightarrow> i u | Y \<Rightarrow> j u | Z \<Rightarrow> k u)"

text \<open>
  The right-handed rotation of a grid point about an axis, by an angle with cosine \<open>c\<close>
  and sine \<open>s\<close>; a quarter turn in direction \<open>d\<close> has cosine \<open>0\<close> and sine \<open>d\<close>.
\<close>

definition rotate_about :: "Axis \<Rightarrow> int \<Rightarrow> int \<Rightarrow> indices \<Rightarrow> indices" where
  "rotate_about a c s v =
     (case a of
        X \<Rightarrow> \<lparr>i = i v, j = c * j v - s * k v, k = s * j v + c * k v\<rparr>
      | Y \<Rightarrow> \<lparr>i = c * i v + s * k v, j = j v, k = c * k v - s * i v\<rparr>
      | Z \<Rightarrow> \<lparr>i = c * i v - s * j v, j = s * i v + c * j v, k = k v\<rparr>)"

definition grid_rot90 :: "Axis \<Rightarrow> int \<Rightarrow> indices \<Rightarrow> indices" where
  "grid_rot90 a d v = rotate_about a 0 d v"

text \<open>The points of \<open>{-1, 0, 1}\<^sup>3\<close>, each once.\<close>

definition grid :: "indices list" where
  "grid = [\<lparr>i = a, j = b, k = c\<rparr>. a \<leftarrow> [-1..1], b \<leftarrow> [-1..1], c \<leftarrow> [-1..1]]"

text \<open>The coordinates stored in the cubelets are the grid points, each exactly once.\<close>

definition index_perm :: "cubelet list \<Rightarrow> bool" where
  "index_perm cs = (mset (map userData cs) = mset grid)"

text \<open>What \<open>bakeAndUpdateIndices a l d\<close> does to one stored coordinate triple.\<close>

definition relabel :: "Axis \<Rightarrow> int \<Rightarrow> int \<Rightarrow> indices \<Rightarrow> indices" where
  "relabel a l d u = (if in_layer a l u then rot a d u else u)"

text \<open>The cubelets of a layer, by their positions in the \<open>cubelets\<close> array.\<close>

definition layer_members :: "Axis \<Rightarrow> int \<Rightarrow> cubelet list \<Rightarrow> nat list" where
  "layer_members a l cs = filter (\<lambda>n. coord a (userData (cs ! n)) = l) [0..<length cs]"

text \<open>Reading an Euler rotation along an axis; the rotations the claims name.\<close>

definition axis_angle :: "euler \<Rightarrow> Axis \<Rightarrow> real" where
  "axis_angle e a = (case a of X \<Rightarrow> rot_x e | Y \<Rightarrow> rot_y e | Z \<Rightarrow> rot_z e)"

definition zero_rotation :: euler where
  "zero_rotation = \<lparr>rot_x = 0, rot_y = 0, rot_z = 0\<rparr>"

definition quarter_turn :: "Axis \<Rightarrow> int \<Rightarrow> euler" where
  "quarter_turn a d =
     \<lparr>rot_x = (if a = X then pi / 2 * real_of_int d else 0),
      rot_y = (if a = Y then pi / 2 * real_of_int d else 0),
      rot_z = (if a = Z then pi / 2 * real_of_int d else 0)\<rparr>"

text \<open>Every value of \<open>Math.random()\<close> lies in \<open>[0, 1)\<close>.\<close>

definition valid_input :: "frame_input \<Rightarrow> bool" where
  "valid_input inp =
     (0 \<le> rnd_axis inp \<and> rnd_axis inp < 1 \<and> 0 \<le> rnd_layer inp \<and> rnd_layer inp < 1 \<and>
      0 \<le> rnd_dir inp \<and> rnd_dir inp < 1 \<and> 0 \<le> rnd_next inp \<and> rnd_next inp < 1)"

text \<open>
  What holds between the runs of the animation callback: the stored coordinates are a
  permutation of the grid, the layer and the direction are among the values the script
  draws, and the turn group holds the chosen layer, turned about the chosen axis only,
  while a turn is on, and is empty and unrotated otherwise.
\<close>

definition turn_inv :: "'q hero \<Rightarrow> bool" where
  "turn_inv s =
     (index_perm (cubelets s) \<and> layer s \<in> {-1, 0, 1} \<and> (dir s = 1 \<or> dir s = -1) \<and>
      (if turning s
       then turnGroup_children s = layer_members (turnAxis s) (layer s) (cubelets s) \<and>
            (\<forall>ax. ax \<noteq> turnAxis s \<longrightarrow> axis_angle (turnGroup_rotation s) ax = 0)
       else turnGroup_children s = [] \<and> turnGroup_rotation s = zero_rotation))"

text \<open>The two states of \<open>NotifyMeButton\<close> other than the initial, idle one.\<close>

definition NotifyMeButton_loading :: notify_button where
  "NotifyMeButton_loading = \<lparr>isLoading = True, timers = [(1500, FinishLoading)], isNotified = False\<rparr>"

definition NotifyMeButton_notified :: notify_button where
  "NotifyMeButton_notified = \<lparr>isLoading = False, timers = [(3000, ResetNotified)], isNotified = True\<rparr>"


section \<open>Properties of the cube\<close>

subsection \<open>Index relabelling\<close>

lemma in_layer_coord: "in_layer a l u = (coord a u = l)"
  by (cases a) (simp_all add: in_layer_def coord_def)

lemma rot_eq_grid_rot90: "d = 1 \<or> d = -1 \<Longrightarrow> rot a d v = grid_rot90 a d v"
  by (cases a) (auto simp: rot_def grid_rot90_def rotate_about_def)

lemma map_userData_update:
  "map userData (cs[n := (cs ! n)\<lparr>baked := b\<rparr>]) = map userData cs"
proof (cases "n < length cs")
  case True
  then show ?thesis
    by (auto simp: nth_list_update intro!: nth_equalityI)
next
  case False
  then show ?thesis by (simp add: list_update_beyond)
qed

lemma userData_root_attach:
  "map userData (cubelets (root_attach c s)) = map userData (cubelets s)"
  by (simp add: root_attach_def map_userData_update)

lemma userData_foldl_root_attach:
  "map userData (cubelets (foldl (\<lambda>t child. root_attach child t) s cs)) = map userData (cubelets s)"
  by (induction cs arbitrary: s) (simp_all add: userData_root_attach)

lemma userData_bake:
  "map userData (cubelets (bakeAndUpdateIndices a l d s)) = map (relabel a l d) (map userData (cubelets s))"
proof -
  have "map userData (cubelets (bakeAndUpdateIndices a l d s)) =
        map (relabel a l d)
          (map userData (cubelets (foldl (\<lambda>t child. root_attach child t) s (turnGroup_children s))))"
    by (simp add: bakeAndUpdateIndices_def Let_def relabel_def comp_def if_distrib cong: if_cong)
  then show ?thesis by (simp only: userData_foldl_root_attach)
qed

text \<open>
  C1. When \<open>bakeAndUpdateIndices a l d\<close> runs with \<open>d\<close> being \<open>1\<close> or \<open>-1\<close>, the stored
  coordinates of every cubelet whose coordinate along \<open>a\<close> is \<open>l\<close> become their image
  under the right-handed quarter turn about \<open>a\<close> in direction \<open>d\<close>, and the stored
  coordinates of every other cubelet stay as they are; about \<open>x\<close> in direction \<open>+1\<close> the
  quarter turn sends \<open>(i, j, k)\<close> to \<open>(i, -k, j)\<close>.
\<close>

theorem bakeAndUpdateIndices_rotates_layer:
  assumes "d = 1 \<or> d = -1"
  shows "map userData (cubelets (bakeAndUpdateIndices a l d s)) =
           map (\<lambda>u. if coord a u = l then grid_rot90 a d u else u) (map userData (cubelets s))
         \<and> grid_rot90 X 1 \<lparr>i = p, j = q, k = r\<rparr> = \<lparr>i = p, j = - r, k = q\<rparr>"
proof
  have "relabel a l d = (\<lambda>u. if coord a u = l then grid_rot90 a d u else u)"
    using assms by (auto simp: relabel_def in_layer_coord rot_eq_grid_rot90)
  then show "map userData (cubelets (bakeAndUpdateIndices a l d s)) =
           map (\<lambda>u. if coord a u = l then grid_rot90 a d u else u) (map userData (cubelets s))"
    by (simp only: userData_bake)
  show "grid_rot90 X 1 \<lparr>i = p, j = q, k = r\<rparr> = \<lparr>i = p, j = - r, k = q\<rparr>"
    by (simp add: grid_rot90_def rotate_about_def)
qed

theorem bakeAndUpdateIndices_rotates_layer_witness:
  "((1::int) = 1 \<or> (1::int) = -1) \<and>
   map userData (cubelets (bakeAndUpdateIndices X 1 1
     ((hero_init ())\<lparr>cubelets := [mesh 1 1 1, mesh 0 1 1, mesh 1 (-1) 0], turnGroup_children := [0, 2]\<rparr>))) =
   [\<lparr>i = 1, j = -1, k = 1\<rparr>, \<lparr>i = 0, j = 1, k = 1\<rparr>, \<lparr>i = 1, j = 0, k = -1\<rparr>]"
  using bakeAndUpdateIndices_rotates_layer [of 1 X 1
     "(hero_init ())\<lparr>cubelets := [mesh 1 1 1, mesh 0 1 1, mesh 1 (-1) 0], turnGroup_children := [0, 2]\<rparr>"]
  by (simp add: hero_init_def mesh_def coord_def grid_rot90_def rotate_about_def)

subsection \<open>The permutation invariant\<close>

lemma rot_inverse: "rot a (if d > 0 then -1 else 1) (rot a d v) = v"
  by (cases a) (simp_all add: rot_def)

lemma in_layer_rot: "in_layer a l (rot a d v) = in_layer a l v"
  by (cases a) (simp_all add: rot_def in_layer_def)

lemma inj_relabel: "inj (relabel a l d)"
proof (rule injI)
  fix u v assume e: "relabel a l d u = relabel a l d v"
  have "in_layer a l (relabel a l d u) = in_layer a l u" for u
    by (simp add: relabel_def in_layer_rot)
  with e have m: "in_layer a l u = in_layer a l v" by metis
  show "u = v"
  proof (cases "in_layer a l u")
    case True
    with m e have "rot a d u = rot a d v" by (simp add: relabel_def)
    then have "rot a (if d > 0 then -1 else 1) (rot a d u) = rot a (if d > 0 then -1 else 1) (rot a d v)"
      by simp
    then show ?thesis by (simp only: rot_inverse)
  next
    case False
    with m e show ?thesis by (simp add: relabel_def)
  qed
qed

lemma set_grid: "set grid = {v. i v \<in> {-1, 0, 1} \<and> j v \<in> {-1, 0, 1} \<and> k v \<in> {-1, 0, 1}}"
proof -
  have r: "{-1..1::int} = {-1, 0, 1}" by auto
  show ?thesis
    by (auto simp: grid_def r)
qed

lemma distinct_grid: "distinct grid"
  by (simp add: grid_def upto.simps)

lemma mset_grid: "mset grid = mset_set (set grid)"
  using distinct_grid by (simp add: mset_set_set)

lemma relabel_grid: "v \<in> set grid \<Longrightarrow> relabel a l d v \<in> set grid"
  unfolding set_grid by (cases a) (auto simp: relabel_def rot_def)

lemma image_relabel_grid: "relabel a l d ` set grid = set grid"
proof (rule card_subset_eq)
  show "finite (set grid)" by simp
  show "relabel a l d ` set grid \<subseteq> set grid" using relabel_grid by blast
  show "card (relabel a l d ` set grid) = card (set grid)"
    by (rule card_image) (rule inj_on_subset [OF inj_relabel subset_UNIV])
qed

lemma image_mset_relabel_grid: "image_mset (relabel a l d) (mset grid) = mset grid"
proof -
  have "image_mset (relabel a l d) (mset_set (set grid)) = mset_set (relabel a l d ` set grid)"
    by (rule image_mset_mset_set) (rule inj_on_subset [OF inj_relabel subset_UNIV])
  then show ?thesis by (simp add: mset_grid image_relabel_grid)
qed

lemma index_perm_bake:
  "index_perm (cubelets s) \<Longrightarrow> index_perm (cubelets (bakeAndUpdateIndices a l d s))"
  unfolding index_perm_def
  by (simp only: userData_bake mset_map image_mset_relabel_grid)

lemma index_perm_build: "index_perm build_cubelets"
  by (simp add: index_perm_def build_cubelets_def grid_def mesh_def map_concat comp_def)

subsection \<open>Attaching a layer\<close>

lemma userData_turnGroup_attach:
  "map userData (cubelets (turnGroup_attach c s)) = map userData (cubelets s)"
  by (simp add: turnGroup_attach_def map_userData_update)

lemma userData_detach_all:
  "map userData (cubelets (detach_all s)) = map userData (cubelets s)"
proof (induction s rule: detach_all.induct)
  case (1 s)
  show ?case
  proof (cases "turnGroup_children s")
    case Nil
    then show ?thesis by (simp add: detach_all.simps [of s])
  next
    case (Cons c cs)
    then show ?thesis using "1.IH" [OF Cons]
      by (simp add: detach_all.simps [of s] userData_root_attach)
  qed
qed

lemma children_detach_all: "turnGroup_children (detach_all s) = []"
proof (induction s rule: detach_all.induct)
  case (1 s)
  show ?case
  proof (cases "turnGroup_children s")
    case Nil
    then show ?thesis by (simp add: detach_all.simps [of s])
  next
    case (Cons c cs)
    then show ?thesis using "1.IH" [OF Cons] by (simp add: detach_all.simps [of s])
  qed
qed

lemma nth_userData_cong:
  "map userData cs = map userData cs' \<Longrightarrow> n < length cs' \<Longrightarrow> userData (cs ! n) = userData (cs' ! n)"
  by (metis length_map nth_map)

lemma attach_loop:
  assumes "distinct ns" and "set ns \<inter> set (turnGroup_children t) = {}"
    and "\<forall>n \<in> set ns. n < length (cubelets t)"
  shows "turnGroup_children
           (foldl (\<lambda>t c. if in_layer a l (userData (cubelets t ! c)) then turnGroup_attach c t else t) t ns) =
         turnGroup_children t @ filter (\<lambda>n. in_layer a l (userData (cubelets t ! n))) ns
       \<and> map userData (cubelets
           (foldl (\<lambda>t c. if in_layer a l (userData (cubelets t ! c)) then turnGroup_attach c t else t) t ns)) =
         map userData (cubelets t)"
  using assms
proof (induction ns arbitrary: t)
  case Nil
  then show ?case by simp
next
  case (Cons n ns)
  let ?t' = "if in_layer a l (userData (cubelets t ! n)) then turnGroup_attach n t else t"
  have u: "map userData (cubelets ?t') = map userData (cubelets t)"
    by (simp add: userData_turnGroup_attach)
  then have len: "length (cubelets ?t') = length (cubelets t)"
    by (metis length_map)
  have c: "turnGroup_children ?t' =
           turnGroup_children t @ (if in_layer a l (userData (cubelets t ! n)) then [n] else [])"
    using Cons.prems by (auto simp: turnGroup_attach_def)
  have d: "set ns \<inter> set (turnGroup_children ?t') = {}"
    using Cons.prems c by auto
  have r: "\<forall>m \<in> set ns. m < length (cubelets ?t')"
    using Cons.prems len by simp
  have f: "filter (\<lambda>m. in_layer a l (userData (cubelets ?t' ! m))) ns =
           filter (\<lambda>m. in_layer a l (userData (cubelets t ! m))) ns"
  proof (rule filter_cong [OF refl])
    fix m assume "m \<in> set ns"
    with Cons.prems have "m < length (cubelets t)" by simp
    from nth_userData_cong [OF u this]
    show "in_layer a l (userData (cubelets ?t' ! m)) = in_layer a l (userData (cubelets t ! m))"
      by simp
  qed
  from Cons.prems have "distinct ns" by simp
  from Cons.IH [OF this d r] show ?case
    by (simp only: foldl_Cons u c f) simp
qed

lemma attachLayer_children:
  "turnGroup_children (attachLayer a l s) =
   filter (\<lambda>n. in_layer a l (userData (cubelets s ! n))) [0..<length (cubelets s)]"
proof -
  let ?s1 = "s\<lparr>turnGroup_position := (0, 0, 0),
               turnGroup_rotation := \<lparr>rot_x = 0, rot_y = 0, rot_z = 0\<rparr>\<rparr>"
  let ?s2 = "detach_all ?s1"
  have u: "map userData (cubelets ?s2) = map userData (cubelets s)"
    by (simp add: userData_detach_all)
  then have len: "length (cubelets ?s2) = length (cubelets s)"
    by (metis length_map)
  have "turnGroup_children (attachLayer a l s) =
        filter (\<lambda>n. in_layer a l (userData (cubelets ?s2 ! n))) [0..<length (cubelets ?s2)]"
    using attach_loop [of "[0..<length (cubelets ?s2)]" ?s2 a l]
    by (simp add: attachLayer_def Let_def children_detach_all)
  also have "\<dots> = filter (\<lambda>n. in_layer a l (userData (cubelets s ! n))) [0..<length (cubelets s)]"
    unfolding len
  proof (rule filter_cong [OF refl])
    fix n assume "n \<in> set [0..<length (cubelets s)]"
    then have "n < length (cubelets s)" by simp
    from nth_userData_cong [OF u this]
    show "in_layer a l (userData (cubelets ?s2 ! n)) = in_layer a l (userData (cubelets s ! n))"
      by simp
  qed
  finally show ?thesis .
qed

lemma userData_attachLayer:
  "map userData (cubelets (attachLayer a l s)) = map userData (cubelets s)"
proof -
  let ?s1 = "s\<lparr>turnGroup_position := (0, 0, 0),
               turnGroup_rotation := \<lparr>rot_x = 0, rot_y = 0, rot_z = 0\<rparr>\<rparr>"
  let ?s2 = "detach_all ?s1"
  have "map userData (cubelets (attachLayer a l s)) = map userData (cubelets ?s2)"
    using attach_loop [of "[0..<length (cubelets ?s2)]" ?s2 a l]
    by (simp add: attachLayer_def Let_def children_detach_all)
  then show ?thesis by (simp add: userData_detach_all)
qed

lemma filter_indices:
  "map ((!) xs) (filter (\<lambda>n. P (xs ! n)) [0..<length xs]) = filter P xs"
proof -
  have "filter P (map ((!) xs) [0..<length xs]) = map ((!) xs) (filter (P \<circ> (!) xs) [0..<length xs])"
    by (rule filter_map)
  then show ?thesis by (simp add: map_nth comp_def)
qed

lemma layer_size_grid:
  "l \<in> {-1, 0, 1} \<Longrightarrow> length (filter (in_layer a l) grid) = 9"
  by (cases a) (auto simp: grid_def in_layer_def upto.simps)

lemma layer_size:
  assumes "index_perm cs" and "l \<in> {-1, 0, 1}"
  shows "length (filter (\<lambda>n. in_layer a l (userData (cs ! n))) [0..<length cs]) = 9"
proof -
  have "filter (\<lambda>n. in_layer a l (userData (cs ! n))) [0..<length cs] =
        filter (\<lambda>n. in_layer a l (map userData cs ! n)) [0..<length cs]"
    by (rule filter_cong [OF refl]) simp
  then have "length (filter (\<lambda>n. in_layer a l (userData (cs ! n))) [0..<length cs]) =
        length (filter (\<lambda>n. in_layer a l (map userData cs ! n)) [0..<length (map userData cs)])"
    by simp
  also have "\<dots> = length (filter (in_layer a l) (map userData cs))"
    using arg_cong [OF filter_indices [of "map userData cs" "in_layer a l"], of length]
    by simp
  also have "\<dots> = size (filter_mset (in_layer a l) (mset (map userData cs)))"
    by (simp only: mset_filter [symmetric] size_mset)
  also have "\<dots> = length (filter (in_layer a l) grid)"
    using assms(1) by (simp only: index_perm_def mset_filter [symmetric] size_mset)
  finally show ?thesis using assms(2) by (simp add: layer_size_grid)
qed

subsection \<open>Baking, and the frame that ends a turn\<close>

lemma root_attach_loop:
  assumes "turnGroup_children s = cs"
  shows "turnGroup_children (foldl (\<lambda>t child. root_attach child t) s cs) = []
       \<and> turnGroup_rotation (foldl (\<lambda>t child. root_attach child t) s cs) = turnGroup_rotation s
       \<and> length (cubelets (foldl (\<lambda>t child. root_attach child t) s cs)) = length (cubelets s)
       \<and> (\<forall>n < length (cubelets s).
            baked (cubelets (foldl (\<lambda>t child. root_attach child t) s cs) ! n) =
            replicate (count_list cs n) (Bake (turnGroup_rotation s)) @ baked (cubelets s ! n))"
  using assms
proof (induction cs arbitrary: s)
  case Nil
  then show ?case by simp
next
  case (Cons c cs)
  let ?s' = "root_attach c s"
  have ch: "turnGroup_children ?s' = cs"
    using Cons.prems by (simp add: root_attach_def)
  have ro: "turnGroup_rotation ?s' = turnGroup_rotation s"
    by (simp add: root_attach_def)
  have le: "length (cubelets ?s') = length (cubelets s)"
    by (simp add: root_attach_def)
  have ba: "baked (cubelets ?s' ! n) =
            (if n = c then Bake (turnGroup_rotation s) # baked (cubelets s ! n) else baked (cubelets s ! n))"
    if "n < length (cubelets s)" for n
    using that Cons.prems by (simp add: root_attach_def nth_list_update)
  from Cons.IH [OF ch] show ?case
    by (simp add: ro le ba replicate_app_Cons_same)
qed

lemma bake_effect:
  "turnGroup_children (bakeAndUpdateIndices a l d s) = []
   \<and> turnGroup_rotation (bakeAndUpdateIndices a l d s) = zero_rotation
   \<and> length (cubelets (bakeAndUpdateIndices a l d s)) = length (cubelets s)
   \<and> (\<forall>n < length (cubelets s).
        baked (cubelets (bakeAndUpdateIndices a l d s) ! n) =
        replicate (count_list (turnGroup_children s) n) (Bake (turnGroup_rotation s)) @ baked (cubelets s ! n))"
  using root_attach_loop [OF refl, of s]
  by (simp add: bakeAndUpdateIndices_def Let_def zero_rotation_def)

lemma bake_vars:
  "turning (bakeAndUpdateIndices a l d s) = turning s
   \<and> turnAxis (bakeAndUpdateIndices a l d s) = turnAxis s
   \<and> layer (bakeAndUpdateIndices a l d s) = layer s
   \<and> dir (bakeAndUpdateIndices a l d s) = dir s"
proof -
  have "turning (foldl (\<lambda>t child. root_attach child t) s cs) = turning s
      \<and> turnAxis (foldl (\<lambda>t child. root_attach child t) s cs) = turnAxis s
      \<and> layer (foldl (\<lambda>t child. root_attach child t) s cs) = layer s
      \<and> dir (foldl (\<lambda>t child. root_attach child t) s cs) = dir s" for cs
    by (induction cs arbitrary: s) (simp_all add: root_attach_def)
  then show ?thesis by (simp add: bakeAndUpdateIndices_def Let_def)
qed

lemma set_after_add: "setAxisRotation (addAxisRotation e a x) a v = setAxisRotation e a v"
  by (cases a) (simp_all add: setAxisRotation_def addAxisRotation_def)

lemma set_zero_rotation: "setAxisRotation zero_rotation a 0 = zero_rotation"
  by (cases a) (simp_all add: setAxisRotation_def zero_rotation_def)

lemma rotation_update_same:
  "turnGroup_rotation s = e \<Longrightarrow> s\<lparr>turnGroup_rotation := e\<rparr> = s"
  by auto

lemma frame_turn_finish:
  assumes "turning t"
    and "angle t + \<bar>pi / 2 / turnDuration * dt inp * real_of_int (dir t)\<bar> \<ge> pi / 2 - 1 / 1000"
  shows "frame_turn inp t =
         (bakeAndUpdateIndices (turnAxis t) (layer t) (dir t)
            (t\<lparr>angle := angle t + \<bar>pi / 2 / turnDuration * dt inp * real_of_int (dir t)\<bar>,
               turnGroup_rotation :=
                 setAxisRotation (turnGroup_rotation t) (turnAxis t) (pi / 2 * real_of_int (dir t))\<rparr>))
         \<lparr>turning := False, nextTurnTime := 1.6 + rnd_next inp * 1.2\<rparr>"
proof -
  define stp where "stp = pi / 2 / turnDuration * dt inp * real_of_int (dir t)"
  define q where "q = pi / 2 * real_of_int (dir t)"
  define th :: real where "th = pi / 2 - 1 / 1000"
  define nx :: real where "nx = 1.6 + rnd_next inp * 1.2"
  let ?u = "t\<lparr>angle := angle t + \<bar>stp\<bar>,
               turnGroup_rotation := setAxisRotation (turnGroup_rotation t) (turnAxis t) q\<rparr>"
  let ?b = "bakeAndUpdateIndices (turnAxis t) (layer t) (dir t) ?u"
  have z: "turnGroup_rotation ?b = zero_rotation"
    using bake_effect by blast
  have v: "turnAxis ?b = turnAxis t"
    using bake_vars [of "turnAxis t" "layer t" "dir t" ?u] by simp
  have i: "?b\<lparr>turnGroup_rotation := zero_rotation\<rparr> = ?b"
    using z by (rule rotation_update_same)
  have c: "th \<le> angle t + \<bar>stp\<bar>"
    using assms(2) by (simp only: th_def stp_def)
  have "frame_turn inp t =
        (if turning t
         then (let step = stp;
                s1 = t\<lparr>angle := angle t + \<bar>step\<bar>\<rparr>;
                s2 = s1\<lparr>turnGroup_rotation := addAxisRotation (turnGroup_rotation s1) (turnAxis s1) step\<rparr>
            in if angle s2 \<ge> th
               then (let s3 = s2\<lparr>turnGroup_rotation :=
                                   setAxisRotation (turnGroup_rotation s2) (turnAxis s2) q\<rparr>;
                         s4 = bakeAndUpdateIndices (turnAxis s3) (layer s3) (dir s3) s3;
                         s5 = s4\<lparr>turnGroup_rotation := setAxisRotation (turnGroup_rotation s4) (turnAxis s4) 0\<rparr>
                     in s5\<lparr>turning := False, nextTurnTime := nx\<rparr>)
               else s2)
         else t)"
    unfolding frame_turn_def stp_def q_def th_def nx_def by (simp add: Let_def)
  also have "\<dots> = ?b\<lparr>turning := False, nextTurnTime := nx\<rparr>"
    using assms(1) c by (simp add: Let_def set_after_add z v set_zero_rotation i)
  finally show ?thesis
    unfolding stp_def q_def nx_def .
qed

lemma userData_frame_begin:
  "map userData (cubelets (frame_begin slerp inp s)) = map userData (cubelets s)"
  by (simp add: frame_begin_def Let_def userData_attachLayer)

lemma userData_frame_turn:
  "map userData (cubelets (frame_turn inp t)) = map userData (cubelets t)
   \<or> map userData (cubelets (frame_turn inp t)) =
       map (relabel (turnAxis t) (layer t) (dir t)) (map userData (cubelets t))"
proof (cases "turning t \<and> angle t + \<bar>pi / 2 / turnDuration * dt inp * real_of_int (dir t)\<bar> \<ge> pi / 2 - 1 / 1000")
  case True
  then show ?thesis
    by (simp add: frame_turn_finish userData_bake)
next
  case False
  then have "cubelets (frame_turn inp t) = cubelets t"
    by (auto simp: frame_turn_def Let_def)
  then show ?thesis by simp
qed

lemma index_perm_relabel:
  "index_perm cs \<Longrightarrow> map userData cs' = map (relabel a l d) (map userData cs) \<Longrightarrow> index_perm cs'"
  unfolding index_perm_def
  by (simp only: mset_map image_mset_relabel_grid)

lemma index_perm_same:
  "index_perm cs \<Longrightarrow> map userData cs' = map userData cs \<Longrightarrow> index_perm cs'"
  by (simp add: index_perm_def)

lemma index_perm_frame:
  assumes "index_perm (cubelets s)"
  shows "index_perm (cubelets (frame slerp inp s))"
proof -
  have b: "index_perm (cubelets (frame_begin slerp inp s))"
    using assms userData_frame_begin by (rule index_perm_same)
  from userData_frame_turn [of inp "frame_begin slerp inp s"] show ?thesis
    unfolding frame_def using b index_perm_same index_perm_relabel by blast
qed

lemma index_perm_frames:
  "index_perm (cubelets s) \<Longrightarrow> index_perm (cubelets (foldl (\<lambda>s inp. frame slerp inp s) s inps))"
  by (induction inps arbitrary: s) (simp_all add: index_perm_frame)

lemma index_perm_turns:
  "index_perm (cubelets s) \<Longrightarrow>
   index_perm (cubelets (foldl (\<lambda>s (a, l, d). bakeAndUpdateIndices a l d (attachLayer a l s)) s turns))"
proof (induction turns arbitrary: s)
  case Nil
  then show ?case by simp
next
  case (Cons t turns)
  obtain a l d where t: "t = (a, l, d)" by (cases t)
  have "index_perm (cubelets (attachLayer a l s))"
    using Cons.prems userData_attachLayer by (rule index_perm_same)
  then have "index_perm (cubelets (bakeAndUpdateIndices a l d (attachLayer a l s)))"
    by (rule index_perm_bake)
  from Cons.IH [OF this] show ?case by (simp add: t)
qed

lemma index_perm_count:
  "index_perm cs \<longleftrightarrow>
   (\<forall>v. count (mset (map userData cs)) v =
        (if i v \<in> {-1, 0, 1} \<and> j v \<in> {-1, 0, 1} \<and> k v \<in> {-1, 0, 1} then 1 else 0))"
proof -
  have "count (mset grid) v =
        (if i v \<in> {-1, 0, 1} \<and> j v \<in> {-1, 0, 1} \<and> k v \<in> {-1, 0, 1} then 1 else 0)" for v
  proof -
    have "count (mset_set (set grid)) v = (if v \<in> set grid then 1 else 0)"
      by simp
    then show ?thesis
      unfolding mset_grid by (simp add: set_grid)
  qed
  then show ?thesis
    unfolding index_perm_def multiset_eq_iff by simp
qed

text \<open>
  C2. The coordinates stored in the 27 cubelets are the points of \<open>{-1, 0, 1}\<^sup>3\<close>, each
  exactly once: after construction, after any call of \<open>bakeAndUpdateIndices\<close> on a state
  where this holds, whatever the axis, the layer and the direction, after any sequence of
  turns (a layer attached, then baked) and after any number of runs of the animation
  callback with random values in \<open>[0, 1)\<close>. The last conjunct says what the invariant
  means, triple by triple.
\<close>

theorem index_perm_invariant:
  "index_perm (cubelets (hero_init q0))
   \<and> (\<forall>a l d (s :: 'q hero). index_perm (cubelets s) \<longrightarrow>
         index_perm (cubelets (bakeAndUpdateIndices a l d s)))
   \<and> (\<forall>turns. index_perm (cubelets
         (foldl (\<lambda>s (a, l, d). bakeAndUpdateIndices a l d (attachLayer a l s)) (hero_init q0) turns)))
   \<and> (\<forall>slerp inps. (\<forall>x \<in> set inps. valid_input x) \<longrightarrow>
         index_perm (cubelets (foldl (\<lambda>s inp. frame slerp inp s) (hero_init q0) inps)))
   \<and> (\<forall>cs. index_perm cs \<longleftrightarrow>
         (\<forall>v. count (mset (map userData cs)) v =
              (if i v \<in> {-1, 0, 1} \<and> j v \<in> {-1, 0, 1} \<and> k v \<in> {-1, 0, 1} then 1 else 0)))"
proof -
  have init: "index_perm (cubelets (hero_init q0))"
    by (simp add: hero_init_def index_perm_build)
  show ?thesis
    using init index_perm_bake index_perm_turns [OF init] index_perm_frames [OF init] index_perm_count
    by blast
qed

theorem index_perm_invariant_witness:
  "index_perm (cubelets (hero_init ())) \<and>
   index_perm (cubelets (bakeAndUpdateIndices Z (-1) (-1) (hero_init ()))) \<and>
   count (mset (map userData (cubelets (bakeAndUpdateIndices Z (-1) (-1) (hero_init ())))))
     \<lparr>i = 1, j = 0, k = -1\<rparr> = 1"
proof -
  note t = index_perm_invariant [of "()"]
  from t have a: "index_perm (cubelets (hero_init ()))" by blast
  with t have b: "index_perm (cubelets (bakeAndUpdateIndices Z (-1) (-1) (hero_init ())))" by blast
  from t have c: "index_perm cs \<longleftrightarrow>
      (\<forall>v. count (mset (map userData cs)) v =
         (if i v \<in> {-1, 0, 1} \<and> j v \<in> {-1, 0, 1} \<and> k v \<in> {-1, 0, 1} then 1 else 0))" for cs
    by blast
  from b c have "\<forall>v. count (mset (map userData (cubelets (bakeAndUpdateIndices Z (-1) (-1) (hero_init ()))))) v =
         (if i v \<in> {-1, 0, 1} \<and> j v \<in> {-1, 0, 1} \<and> k v \<in> {-1, 0, 1} then 1 else 0)"
    by blast
  then have "count (mset (map userData (cubelets (bakeAndUpdateIndices Z (-1) (-1) (hero_init ())))))
       \<lparr>i = 1, j = 0, k = -1\<rparr> =
     (if i \<lparr>i = 1, j = 0, k = -1\<rparr> \<in> {-1, 0, 1} \<and> j \<lparr>i = 1, j = 0, k = -1\<rparr> \<in> {-1, 0, 1}
         \<and> k \<lparr>i = 1, j = 0, k = -1\<rparr> \<in> {-1, 0, 1} then 1 else 0)"
    by (rule spec)
  then have "count (mset (map userData (cubelets (bakeAndUpdateIndices Z (-1) (-1) (hero_init ())))))
       \<lparr>i = 1, j = 0, k = -1\<rparr> = 1"
    by simp
  with a b show ?thesis by blast
qed

lemma layer_members_filter:
  "layer_members a l cs = filter (\<lambda>n. in_layer a l (userData (cs ! n))) [0..<length cs]"
  by (simp add: layer_members_def in_layer_coord)

lemma layer_members_cong:
  assumes "map userData cs = map userData cs'"
  shows "layer_members a l cs = layer_members a l cs'"
proof -
  from assms have len: "length cs = length cs'" by (metis length_map)
  have "filter (\<lambda>n. coord a (userData (cs ! n)) = l) [0..<length cs'] =
        filter (\<lambda>n. coord a (userData (cs' ! n)) = l) [0..<length cs']"
  proof (rule filter_cong [OF refl])
    fix n assume "n \<in> set [0..<length cs']"
    then have "n < length cs'" by simp
    from nth_userData_cong [OF assms this]
    show "(coord a (userData (cs ! n)) = l) = (coord a (userData (cs' ! n)) = l)" by simp
  qed
  then show ?thesis by (simp add: layer_members_def len)
qed

lemma distinct_layer_members: "distinct (layer_members a l cs)"
  by (simp add: layer_members_def)

lemma set_layer_members:
  "set (layer_members a l cs) = {n. n < length cs \<and> coord a (userData (cs ! n)) = l}"
  by (auto simp: layer_members_def)

lemma length_layer_members:
  "index_perm cs \<Longrightarrow> l \<in> {-1, 0, 1} \<Longrightarrow> length (layer_members a l cs) = 9"
  unfolding layer_members_filter by (rule layer_size)

text \<open>
  C7. After \<open>attachLayer a l\<close> the children of the turn group are the cubelets whose
  stored coordinate along \<open>a\<close> is \<open>l\<close>, each once, whatever was attached before (every
  other cubelet is a child of the root); the stored coordinates are untouched; and when
  they are a permutation of the grid and \<open>l\<close> is one of \<open>-1\<close>, \<open>0\<close>, \<open>1\<close>, the turn group
  has exactly 9 children.
\<close>

theorem attachLayer_selects_layer:
  "turnGroup_children (attachLayer a l s) = layer_members a l (cubelets s)
   \<and> set (turnGroup_children (attachLayer a l s)) =
       {n. n < length (cubelets s) \<and> coord a (userData (cubelets s ! n)) = l}
   \<and> distinct (turnGroup_children (attachLayer a l s))
   \<and> map userData (cubelets (attachLayer a l s)) = map userData (cubelets s)
   \<and> (index_perm (cubelets s) \<and> l \<in> {-1, 0, 1} \<longrightarrow>
        length (turnGroup_children (attachLayer a l s)) = 9)"
proof -
  have c: "turnGroup_children (attachLayer a l s) = layer_members a l (cubelets s)"
    by (simp only: attachLayer_children layer_members_filter)
  show ?thesis
    unfolding c
    by (simp add: set_layer_members distinct_layer_members userData_attachLayer length_layer_members)
qed

theorem attachLayer_selects_layer_witness:
  "index_perm (cubelets (hero_init ())) \<and> (1::int) \<in> {-1, 0, 1} \<and>
   length (turnGroup_children (attachLayer X 1 (hero_init ()))) = 9 \<and>
   turnGroup_children (attachLayer X 1 (hero_init ())) = [18, 19, 20, 21, 22, 23, 24, 25, 26]"
proof -
  have a: "index_perm (cubelets (hero_init ()))"
    by (simp add: hero_init_def index_perm_build)
  have b: "layer_members X 1 (cubelets (hero_init ())) = [18, 19, 20, 21, 22, 23, 24, 25, 26]"
    by (simp add: layer_members_def hero_init_def build_cubelets_def mesh_def coord_def upto.simps upt_rec)
  from a b attachLayer_selects_layer [of X 1 "hero_init ()"] show ?thesis by simp
qed

subsection \<open>The state between frames\<close>

lemma root_attach_vars:
  "turnGroup_rotation (root_attach c s) = turnGroup_rotation s
   \<and> turning (root_attach c s) = turning s \<and> turnAxis (root_attach c s) = turnAxis s
   \<and> layer (root_attach c s) = layer s \<and> dir (root_attach c s) = dir s
   \<and> angle (root_attach c s) = angle s"
  by (simp add: root_attach_def)

lemma turnGroup_attach_vars:
  "turnGroup_rotation (turnGroup_attach c s) = turnGroup_rotation s
   \<and> turning (turnGroup_attach c s) = turning s \<and> turnAxis (turnGroup_attach c s) = turnAxis s
   \<and> layer (turnGroup_attach c s) = layer s \<and> dir (turnGroup_attach c s) = dir s
   \<and> angle (turnGroup_attach c s) = angle s"
  by (simp add: turnGroup_attach_def)

lemma detach_all_vars:
  "turnGroup_rotation (detach_all s) = turnGroup_rotation s
   \<and> turning (detach_all s) = turning s \<and> turnAxis (detach_all s) = turnAxis s
   \<and> layer (detach_all s) = layer s \<and> dir (detach_all s) = dir s
   \<and> angle (detach_all s) = angle s"
proof (induction s rule: detach_all.induct)
  case (1 s)
  show ?case
  proof (cases "turnGroup_children s")
    case Nil
    then show ?thesis by (simp add: detach_all.simps [of s])
  next
    case (Cons c cs)
    then show ?thesis using "1.IH" [OF Cons]
      by (simp add: detach_all.simps [of s] root_attach_vars)
  qed
qed

lemma attach_loop_vars:
  "turnGroup_rotation (foldl (\<lambda>t c. if P t c then turnGroup_attach c t else t) s ns) = turnGroup_rotation s
   \<and> turning (foldl (\<lambda>t c. if P t c then turnGroup_attach c t else t) s ns) = turning s
   \<and> turnAxis (foldl (\<lambda>t c. if P t c then turnGroup_attach c t else t) s ns) = turnAxis s
   \<and> layer (foldl (\<lambda>t c. if P t c then turnGroup_attach c t else t) s ns) = layer s
   \<and> dir (foldl (\<lambda>t c. if P t c then turnGroup_attach c t else t) s ns) = dir s
   \<and> angle (foldl (\<lambda>t c. if P t c then turnGroup_attach c t else t) s ns) = angle s"
  by (induction ns arbitrary: s) (simp_all add: turnGroup_attach_vars)

lemma attachLayer_vars:
  "turnGroup_rotation (attachLayer a l s) = zero_rotation
   \<and> turning (attachLayer a l s) = turning s \<and> turnAxis (attachLayer a l s) = turnAxis s
   \<and> layer (attachLayer a l s) = layer s \<and> dir (attachLayer a l s) = dir s
   \<and> angle (attachLayer a l s) = angle s"
  unfolding attachLayer_def Let_def
  by (simp add: attach_loop_vars detach_all_vars zero_rotation_def)

lemma pick_layer:
  assumes "0 \<le> r" and "r < 1"
  shows "pick [-1, 0, 1 :: int] r \<in> {-1, 0, 1}"
proof -
  define z where "z = \<lfloor>r * 3\<rfloor>"
  have "0 \<le> z" unfolding z_def using assms by simp
  moreover have "z < 3" unfolding z_def using assms by (simp add: floor_less_iff)
  ultimately have z: "z = 0 \<or> z = 1 \<or> z = 2" by arith
  have "pick [-1, 0, 1 :: int] r = [-1, 0, 1] ! nat z"
    by (simp add: pick_def z_def)
  with z show ?thesis by auto
qed

lemma axis_angle_zero: "axis_angle zero_rotation ax = 0"
  by (cases ax) (simp_all add: axis_angle_def zero_rotation_def)

lemma axis_angle_add: "ax \<noteq> a \<Longrightarrow> axis_angle (addAxisRotation e a x) ax = axis_angle e ax"
  by (cases a; cases ax) (simp_all add: axis_angle_def addAxisRotation_def)

lemma turn_inv_init: "turn_inv (hero_init q0)"
  by (simp add: turn_inv_def hero_init_def index_perm_build zero_rotation_def)

lemma turn_inv_frame_begin:
  assumes "valid_input inp" and "turn_inv s"
  shows "turn_inv (frame_begin slerp inp s)"
proof (cases "\<not> turning s \<and> nextTurnTime s - dt inp \<le> 0")
  case False
  then have "frame_begin slerp inp s =
             s\<lparr>root_quaternion := slerp (root_quaternion s) (targetQuat s) (min 1 (dt inp * 5)),
               nextTurnTime := nextTurnTime s - dt inp\<rparr>"
    by (auto simp: frame_begin_def Let_def)
  with assms(2) show ?thesis by (simp add: turn_inv_def)
next
  case True
  define a where "a = pick [X, Y, Z] (rnd_axis inp)"
  define l where "l = pick [-1, 0, 1 :: int] (rnd_layer inp)"
  define d :: int where "d = (if rnd_dir inp > 0.5 then 1 else -1)"
  define u where "u = s\<lparr>root_quaternion := slerp (root_quaternion s) (targetQuat s) (min 1 (dt inp * 5)),
               nextTurnTime := nextTurnTime s - dt inp,
               turning := True, turnAxis := a, layer := l, angle := 0, dir := d\<rparr>"
  from True have fb: "frame_begin slerp inp s = attachLayer a l u"
    by (simp add: frame_begin_def Let_def a_def l_def d_def u_def)
  have l: "l \<in> {-1, 0, 1}"
    unfolding l_def using assms(1) by (intro pick_layer) (simp_all add: valid_input_def)
  have d: "d = 1 \<or> d = -1" by (simp add: d_def)
  have ud: "map userData (cubelets (attachLayer a l u)) = map userData (cubelets u)"
    by (rule userData_attachLayer)
  have ip: "index_perm (cubelets (attachLayer a l u))"
  proof (rule index_perm_same [OF _ ud])
    show "index_perm (cubelets u)" using assms(2) by (simp add: u_def turn_inv_def)
  qed
  have ch: "turnGroup_children (attachLayer a l u) = layer_members a l (cubelets (attachLayer a l u))"
    using layer_members_cong [OF ud, of a l]
    by (simp only: attachLayer_children layer_members_filter)
  have v: "turning (attachLayer a l u) \<and> turnAxis (attachLayer a l u) = a
           \<and> layer (attachLayer a l u) = l \<and> dir (attachLayer a l u) = d
           \<and> turnGroup_rotation (attachLayer a l u) = zero_rotation"
    using attachLayer_vars [of a l u] by (simp add: u_def)
  show ?thesis
    unfolding fb turn_inv_def using ip l d ch v by (simp add: axis_angle_zero)
qed

lemma turn_inv_frame_turn:
  assumes "turn_inv t"
  shows "turn_inv (frame_turn inp t)"
proof (cases "turning t")
  case False
  with assms show ?thesis by (simp add: frame_turn_def)
next
  case True
  show ?thesis
  proof (cases "angle t + \<bar>pi / 2 / turnDuration * dt inp * real_of_int (dir t)\<bar> \<ge> pi / 2 - 1 / 1000")
    case fin: True
    let ?u = "t\<lparr>angle := angle t + \<bar>pi / 2 / turnDuration * dt inp * real_of_int (dir t)\<bar>,
               turnGroup_rotation :=
                 setAxisRotation (turnGroup_rotation t) (turnAxis t) (pi / 2 * real_of_int (dir t))\<rparr>"
    let ?b = "bakeAndUpdateIndices (turnAxis t) (layer t) (dir t) ?u"
    have ip: "index_perm (cubelets ?b)"
      using assms by (intro index_perm_bake) (simp add: turn_inv_def)
    have e: "turnGroup_children ?b = [] \<and> turnGroup_rotation ?b = zero_rotation"
      using bake_effect [of "turnAxis t" "layer t" "dir t" ?u] by blast
    have v: "layer ?b = layer t \<and> dir ?b = dir t"
      using bake_vars [of "turnAxis t" "layer t" "dir t" ?u] by simp
    show ?thesis
      unfolding frame_turn_finish [OF True fin] turn_inv_def
      using assms ip e v by (simp add: turn_inv_def)
  next
    case False
    define stp where "stp = pi / 2 / turnDuration * dt inp * real_of_int (dir t)"
    from True False have "frame_turn inp t =
        t\<lparr>angle := angle t + \<bar>stp\<bar>,
          turnGroup_rotation := addAxisRotation (turnGroup_rotation t) (turnAxis t) stp\<rparr>"
      by (simp add: frame_turn_def Let_def stp_def)
    with assms True show ?thesis
      by (simp add: turn_inv_def axis_angle_add)
  qed
qed

lemma turn_inv_frames:
  "\<forall>x \<in> set inps. valid_input x \<Longrightarrow> turn_inv s \<Longrightarrow>
   turn_inv (foldl (\<lambda>s x. frame slerp x s) s inps)"
  by (induction inps arbitrary: s) (simp_all add: frame_def turn_inv_frame_begin turn_inv_frame_turn)

lemma count_list_distinct:
  "distinct xs \<Longrightarrow> count_list xs n = (if n \<in> set xs then 1 else 0)"
  by (induction xs) auto

lemma snap_quarter_turn:
  assumes "\<forall>ax. ax \<noteq> a \<longrightarrow> axis_angle e ax = 0"
  shows "setAxisRotation e a (pi / 2 * real_of_int d) = quarter_turn a d"
proof (cases a)
  case X
  with assms have "axis_angle e Y = 0" "axis_angle e Z = 0" by simp_all
  with X show ?thesis
    by (cases e) (simp add: setAxisRotation_def quarter_turn_def axis_angle_def)
next
  case Y
  with assms have "axis_angle e X = 0" "axis_angle e Z = 0" by simp_all
  with Y show ?thesis
    by (cases e) (simp add: setAxisRotation_def quarter_turn_def axis_angle_def)
next
  case Z
  with assms have "axis_angle e X = 0" "axis_angle e Y = 0" by simp_all
  with Z show ?thesis
    by (cases e) (simp add: setAxisRotation_def quarter_turn_def axis_angle_def)
qed

lemma axis_angle_quarter_turn: "axis_angle (quarter_turn a d) a = pi / 2 * real_of_int d"
  by (cases a) (simp_all add: axis_angle_def quarter_turn_def)

lemma finishing_frame:
  assumes inv: "turn_inv t" and tu: "turning t"
    and fin: "angle t + \<bar>pi / 2 / turnDuration * dt inp * real_of_int (dir t)\<bar> \<ge> pi / 2 - 1 / 1000"
  shows "turnGroup_children t = layer_members (turnAxis t) (layer t) (cubelets t)
     \<and> length (turnGroup_children t) = 9
     \<and> (\<forall>n < length (cubelets t).
          baked (cubelets (frame_turn inp t) ! n) =
          (if coord (turnAxis t) (userData (cubelets t ! n)) = layer t
           then Bake (quarter_turn (turnAxis t) (dir t)) # baked (cubelets t ! n)
           else baked (cubelets t ! n)))
     \<and> turnGroup_children (frame_turn inp t) = []
     \<and> turnGroup_rotation (frame_turn inp t) = zero_rotation
     \<and> \<not> turning (frame_turn inp t)"
proof -
  let ?q = "setAxisRotation (turnGroup_rotation t) (turnAxis t) (pi / 2 * real_of_int (dir t))"
  let ?u = "t\<lparr>angle := angle t + \<bar>pi / 2 / turnDuration * dt inp * real_of_int (dir t)\<bar>,
             turnGroup_rotation := ?q\<rparr>"
  let ?b = "bakeAndUpdateIndices (turnAxis t) (layer t) (dir t) ?u"
  from inv tu have ch: "turnGroup_children t = layer_members (turnAxis t) (layer t) (cubelets t)"
    and ax: "\<forall>ax. ax \<noteq> turnAxis t \<longrightarrow> axis_angle (turnGroup_rotation t) ax = 0"
    and ip: "index_perm (cubelets t)" and la: "layer t \<in> {-1, 0, 1}"
    by (simp_all add: turn_inv_def)
  have q: "?q = quarter_turn (turnAxis t) (dir t)"
    using ax by (rule snap_quarter_turn)
  have nine: "length (turnGroup_children t) = 9"
    unfolding ch using ip la by (rule length_layer_members)
  have cnt: "count_list (turnGroup_children t) n =
             (if coord (turnAxis t) (userData (cubelets t ! n)) = layer t then 1 else 0)"
    if "n < length (cubelets t)" for n
    unfolding ch using that
    by (simp add: count_list_distinct distinct_layer_members set_layer_members)
  have be: "turnGroup_children ?b = [] \<and> turnGroup_rotation ?b = zero_rotation
     \<and> (\<forall>n < length (cubelets t).
          baked (cubelets ?b ! n) =
          replicate (count_list (turnGroup_children t) n) (Bake ?q) @ baked (cubelets t ! n))"
    using bake_effect [of "turnAxis t" "layer t" "dir t" ?u] by simp
  have ba: "baked (cubelets ?b ! n) =
          (if coord (turnAxis t) (userData (cubelets t ! n)) = layer t
           then Bake (quarter_turn (turnAxis t) (dir t)) # baked (cubelets t ! n)
           else baked (cubelets t ! n))"
    if "n < length (cubelets t)" for n
    using be that cnt [OF that] q by simp
  show ?thesis
    unfolding frame_turn_finish [OF tu fin]
    using ch nine ba be by simp
qed

text \<open>
  C6. Run the animation callback any number of times from the initial state, with every
  random value in \<open>[0, 1)\<close>. In a frame where a turn is on (\<open>t\<close> is the state after the
  first half of the callback) and the accumulated angle reaches \<open>pi / 2 - 1 / 1000\<close>, the
  turn group holds the 9 cubelets of the chosen layer, each of them is baked back to the
  root with the turn group's rotation at exactly \<open>pi / 2 * dir\<close> about the turn axis and
  \<open>0\<close> about the other two, no other cubelet is transformed, and afterwards the turn group
  is empty, its rotation is \<open>0\<close> and the turning flag is cleared.
\<close>

theorem turn_snaps_to_quarter_turn:
  assumes "\<forall>x \<in> set (inp # inps). valid_input x"
  shows "let s = foldl (\<lambda>s x. frame slerp x s) (hero_init q0) inps;
             t = frame_begin slerp inp s;
             s' = frame slerp inp s
         in turning t \<and>
            angle t + \<bar>pi / 2 / turnDuration * dt inp * real_of_int (dir t)\<bar> \<ge> pi / 2 - 1 / 1000 \<longrightarrow>
              turnGroup_children t = layer_members (turnAxis t) (layer t) (cubelets t)
            \<and> length (turnGroup_children t) = 9
            \<and> (\<forall>n < length (cubelets t).
                 baked (cubelets s' ! n) =
                 (if coord (turnAxis t) (userData (cubelets t ! n)) = layer t
                  then Bake (quarter_turn (turnAxis t) (dir t)) # baked (cubelets t ! n)
                  else baked (cubelets t ! n)))
            \<and> axis_angle (quarter_turn (turnAxis t) (dir t)) (turnAxis t) = pi / 2 * real_of_int (dir t)
            \<and> turnGroup_children s' = []
            \<and> turnGroup_rotation s' = zero_rotation
            \<and> \<not> turning s'"
proof -
  define s where "s = foldl (\<lambda>s x. frame slerp x s) (hero_init q0) inps"
  have "turn_inv s"
    unfolding s_def using assms by (intro turn_inv_frames turn_inv_init) simp
  then have "turn_inv (frame_begin slerp inp s)"
    using assms by (intro turn_inv_frame_begin) simp_all
  note f = finishing_frame [OF this, of inp]
  have fr: "frame slerp inp s = frame_turn inp (frame_begin slerp inp s)"
    by (simp add: frame_def)
  show ?thesis
    unfolding Let_def s_def [symmetric] fr
    using f axis_angle_quarter_turn by blast
qed

theorem turn_snaps_to_quarter_turn_witness:
  "valid_input \<lparr>dt = 2, rnd_axis = 0, rnd_layer = 0, rnd_dir = 0.9, rnd_next = 0\<rparr>
   \<and> turning (frame_begin (\<lambda>a b c. a) \<lparr>dt = 2, rnd_axis = 0, rnd_layer = 0, rnd_dir = 0.9, rnd_next = 0\<rparr>
        (hero_init ()))
   \<and> length (turnGroup_children
        (frame_begin (\<lambda>a b c. a) \<lparr>dt = 2, rnd_axis = 0, rnd_layer = 0, rnd_dir = 0.9, rnd_next = 0\<rparr>
          (hero_init ()))) = 9
   \<and> turnGroup_rotation
        (frame (\<lambda>a b c. a) \<lparr>dt = 2, rnd_axis = 0, rnd_layer = 0, rnd_dir = 0.9, rnd_next = 0\<rparr>
          (hero_init ())) = zero_rotation
   \<and> \<not> turning
        (frame (\<lambda>a b c. a) \<lparr>dt = 2, rnd_axis = 0, rnd_layer = 0, rnd_dir = 0.9, rnd_next = 0\<rparr>
          (hero_init ()))"
proof -
  define inp where "inp = \<lparr>dt = 2, rnd_axis = 0, rnd_layer = 0, rnd_dir = 0.9, rnd_next = 0\<rparr>"
  define sl :: "unit \<Rightarrow> unit \<Rightarrow> real \<Rightarrow> unit" where "sl = (\<lambda>a b c. a)"
  define t where "t = frame_begin sl inp (hero_init ())"
  have v: "valid_input inp"
    by (simp add: valid_input_def inp_def)
  have "t = attachLayer X (-1)
          ((hero_init ())\<lparr>nextTurnTime := 1.8 - 2, turning := True, turnAxis := X, layer := -1,
                           angle := 0, dir := 1\<rparr>)"
    by (simp add: t_def frame_begin_def Let_def inp_def sl_def hero_init_def pick_def)
  then have tv: "turning t \<and> angle t = 0 \<and> dir t = 1"
    by (simp add: attachLayer_vars)
  have th: "pi / 2 - 1 / 1000 \<le> angle t + \<bar>pi / 2 / turnDuration * dt inp * real_of_int (dir t)\<bar>"
    using tv by (simp add: turnDuration_def inp_def) (insert pi_gt_zero, linarith)
  have prem: "\<forall>x \<in> set (inp # []). valid_input x"
    using v by simp
  have "length (turnGroup_children t) = 9
      \<and> turnGroup_rotation (frame sl inp (hero_init ())) = zero_rotation
      \<and> \<not> turning (frame sl inp (hero_init ()))"
    using turn_snaps_to_quarter_turn [OF prem, of sl "()"] tv th
    unfolding Let_def foldl_Nil t_def [symmetric] by blast
  with v tv show ?thesis
    unfolding t_def inp_def sl_def by simp
qed

section \<open>Properties of the teardown\<close>

lemma teardown_result:
  assumes "Canvas \<in> set (container_children w)"
  shows "teardown w =
         (None, w\<lparr>observing := False,
                   window_listeners := remove1 (''pointermove'', OnPointerMove) (window_listeners w),
                   animationLoop_set := False,
                   renderer_disposed := True,
                   pmrem_disposed := True,
                   container_children := remove1 Canvas (container_children w)\<rparr>)"
  using assms by (simp add: teardown_def removeChild_def removeEventListener_def Let_def)

lemma remove1_append_new: "x \<notin> set xs \<Longrightarrow> remove1 x (xs @ [x]) = xs"
  by (induction xs) auto

text \<open>
  C9. While the canvas is a child of the container, as the body of the effect leaves it,
  the teardown returns normally and changes exactly this: the observer is disconnected,
  the \<open>pointermove\<close> listener is gone from the window, the animation loop is stopped, the
  renderer and the PMREM generator are disposed and the canvas is no longer a child of the
  container. Every other part of the outside state, the ref and the other resources
  included, is as before. Run after the body of the effect, it gives back the listeners
  and the children that were there before the body ran.
\<close>

theorem teardown_cleans_up:
  "(Canvas \<in> set (container_children w) \<longrightarrow>
      teardown w =
        (None, w\<lparr>observing := False,
                  window_listeners := remove1 (''pointermove'', OnPointerMove) (window_listeners w),
                  animationLoop_set := False,
                  renderer_disposed := True,
                  pmrem_disposed := True,
                  container_children := remove1 Canvas (container_children w)\<rparr>))
   \<and> (Canvas \<notin> set (container_children w) \<and>
        (''pointermove'', OnPointerMove) \<notin> set (window_listeners w) \<longrightarrow>
      teardown (mount w) =
        (None, w\<lparr>observing := False,
                  animationLoop_set := False,
                  renderer_disposed := True,
                  pmrem_disposed := True,
                  envTexture_disposed := False,
                  geometry_disposed := False,
                  material_disposed := False,
                  rendererRef_current := Some Canvas\<rparr>))"
proof (intro conjI impI)
  assume "Canvas \<in> set (container_children w)"
  then show "teardown w =
        (None, w\<lparr>observing := False,
                  window_listeners := remove1 (''pointermove'', OnPointerMove) (window_listeners w),
                  animationLoop_set := False,
                  renderer_disposed := True,
                  pmrem_disposed := True,
                  container_children := remove1 Canvas (container_children w)\<rparr>)"
    by (rule teardown_result)
next
  assume a: "Canvas \<notin> set (container_children w) \<and>
        (''pointermove'', OnPointerMove) \<notin> set (window_listeners w)"
  then have m: "mount w =
      w\<lparr>observing := True,
        window_listeners := window_listeners w @ [(''pointermove'', OnPointerMove)],
        animationLoop_set := True,
        renderer_disposed := False,
        pmrem_disposed := False,
        envTexture_disposed := False,
        geometry_disposed := False,
        material_disposed := False,
        container_children := container_children w @ [Canvas],
        rendererRef_current := Some Canvas\<rparr>"
    by (simp add: mount_def appendChild_def addEventListener_def Let_def remove1_idem)
  have "Canvas \<in> set (container_children (mount w))"
    by (simp add: m)
  from teardown_result [OF this] a show "teardown (mount w) =
        (None, w\<lparr>observing := False,
                  animationLoop_set := False,
                  renderer_disposed := True,
                  pmrem_disposed := True,
                  envTexture_disposed := False,
                  geometry_disposed := False,
                  material_disposed := False,
                  rendererRef_current := Some Canvas\<rparr>)"
    by (simp add: m remove1_append_new)
qed

theorem teardown_cleans_up_witness:
  "Canvas \<notin> set [OtherNode 0] \<and> (''pointermove'', OnPointerMove) \<notin> set [(''resize'', OtherListener 0)] \<and>
   teardown (mount
     \<lparr>observing = False, window_listeners = [(''resize'', OtherListener 0)], animationLoop_set = False,
      renderer_disposed = False, pmrem_disposed = False, envTexture_disposed = False,
      geometry_disposed = False, material_disposed = False, container_children = [OtherNode 0],
      rendererRef_current = None\<rparr>) =
   (None,
     \<lparr>observing = False, window_listeners = [(''resize'', OtherListener 0)], animationLoop_set = False,
      renderer_disposed = True, pmrem_disposed = True, envTexture_disposed = False,
      geometry_disposed = False, material_disposed = False, container_children = [OtherNode 0],
      rendererRef_current = Some Canvas\<rparr>)"
  using teardown_cleans_up [of
     "\<lparr>observing = False, window_listeners = [(''resize'', OtherListener 0)], animationLoop_set = False,
      renderer_disposed = False, pmrem_disposed = False, envTexture_disposed = False,
      geometry_disposed = False, material_disposed = False, container_children = [OtherNode 0],
      rendererRef_current = None\<rparr>"]
  by simp

section \<open>Properties of the pages\<close>

text \<open>
  C3, amended. \<open>Home\<close> redirects to \<open>/home\<close> exactly when the session has a user and
  renders the landing page otherwise; \<open>ComingSoon\<close> redirects to \<open>/\<close> exactly when the
  session has no user and renders otherwise. \<open>Home\<close> depends on the session only through
  the presence of a user; what \<open>ComingSoon\<close> renders also shows the user's image (or the
  placeholder avatar) and name (\<open>User\<close> as the alternative text when there is none).
\<close>

theorem session_decides_redirect:
  "(Home sess = Redirect ''/home'' \<longleftrightarrow> session_user sess \<noteq> None)
   \<and> (Home sess = Render () \<longleftrightarrow> session_user sess = None)
   \<and> (ComingSoon sess = Redirect ''/'' \<longleftrightarrow> session_user sess = None)
   \<and> (\<forall>u. session_user sess = Some u \<longrightarrow>
         ComingSoon sess =
           Render \<lparr>avatar_src = (case image u of None \<Rightarrow> ''/placeholder-avatar.png'' | Some x \<Rightarrow> x),
                   avatar_alt = (case name u of None \<Rightarrow> ''User'' | Some n \<Rightarrow> n),
                   shown_name = name u\<rparr>)
   \<and> (\<forall>sess'. (session_user sess = None \<longleftrightarrow> session_user sess' = None) \<longrightarrow> Home sess = Home sess')"
  by (auto simp: Home_def ComingSoon_def split: option.splits)

theorem session_decides_redirect_witness:
  "session_user (Some \<lparr>user = Some \<lparr>name = Some ''Ann'', image = None\<rparr>\<rparr>) =
     Some \<lparr>name = Some ''Ann'', image = None\<rparr>
   \<and> Home (Some \<lparr>user = Some \<lparr>name = Some ''Ann'', image = None\<rparr>\<rparr>) = Redirect ''/home''
   \<and> ComingSoon (Some \<lparr>user = Some \<lparr>name = Some ''Ann'', image = None\<rparr>\<rparr>) =
       Render \<lparr>avatar_src = ''/placeholder-avatar.png'', avatar_alt = ''Ann'', shown_name = Some ''Ann''\<rparr>"
proof -
  have u: "session_user (Some \<lparr>user = Some \<lparr>name = Some ''Ann'', image = None\<rparr>\<rparr>) =
     Some \<lparr>name = Some ''Ann'', image = None\<rparr>"
    by (simp add: session_user_def)
  from session_decides_redirect [of "Some \<lparr>user = Some \<lparr>name = Some ''Ann'', image = None\<rparr>\<rparr>"] u
  show ?thesis by simp
qed

text \<open>
  C3 as stated fails in its last sentence: two sessions that both have a user, with
  different names, give different \<open>ComingSoon\<close> pages.
\<close>

theorem ComingSoon_reads_user_counterexample:
  "(session_user (Some \<lparr>user = Some \<lparr>name = Some ''Ann'', image = None\<rparr>\<rparr>) = None \<longleftrightarrow>
    session_user (Some \<lparr>user = Some \<lparr>name = Some ''Bob'', image = None\<rparr>\<rparr>) = None)
   \<and> ComingSoon (Some \<lparr>user = Some \<lparr>name = Some ''Ann'', image = None\<rparr>\<rparr>) \<noteq>
     ComingSoon (Some \<lparr>user = Some \<lparr>name = Some ''Bob'', image = None\<rparr>\<rparr>)"
  by (simp add: session_user_def ComingSoon_def)

section \<open>Properties of the buttons\<close>

lemma GetStartedButton_stays_loading:
  "isLoading s \<Longrightarrow> isLoading (foldl GetStartedButton_step s evs)"
proof (induction evs arbitrary: s)
  case Nil
  then show ?case by simp
next
  case (Cons ev evs)
  from Cons.prems have "isLoading (GetStartedButton_step s ev)"
    by (cases ev) (simp_all add: GetStartedButton_step_def GetStartedButton_handleClick_def)
  then show ?case by (simp add: Cons.IH)
qed

lemma SignInButton_stays_loading:
  "isLoading s \<Longrightarrow> isLoading (foldl SignInButton_step s evs)"
proof (induction evs arbitrary: s)
  case Nil
  then show ?case by simp
next
  case (Cons ev evs)
  from Cons.prems have "isLoading (SignInButton_step s ev)"
    by (cases ev) (simp_all add: SignInButton_step_def SignInButton_handleClick_def)
  then show ?case by (simp add: Cons.IH)
qed

lemma SignOutButton_disabled:
  "isLoading s \<Longrightarrow> foldl SignOutButton_click s outs = s"
  by (induction outs) (simp_all add: SignOutButton_click_def)

text \<open>
  C4 as stated fails for \<open>GetStartedButton\<close>: after the click no sequence of events of
  the component brings the flag back to false.
\<close>

theorem GetStartedButton_never_resets_counterexample:
  "\<not> (\<exists>evs. \<not> isLoading
        (foldl GetStartedButton_step (GetStartedButton_step GetStartedButton_init Click) evs))"
proof -
  have "isLoading (GetStartedButton_step GetStartedButton_init Click)"
    by (simp add: GetStartedButton_step_def GetStartedButton_handleClick_def)
  then show ?thesis
    using GetStartedButton_stays_loading by blast
qed

text \<open>
  C4, amended. A click on the enabled \<open>WatchDemoButton\<close> sets the flag and starts a timer
  of 2000 ms whose expiry restores the state before the click; a click on the idle
  \<open>NotifyMeButton\<close> sets the flag and starts a timer of 1500 ms whose expiry clears it.
  \<open>SignOutButton\<close> clears the flag when \<open>signOut\<close> throws and otherwise keeps it set for
  good. \<open>GetStartedButton\<close> and \<open>SignInButton\<close> set the flag on a click and never clear it.
\<close>

theorem loading_flag_resets:
  "(\<forall>s. \<not> isLoading s \<longrightarrow>
       isLoading (WatchDemoButton_step s Click)
     \<and> timers (WatchDemoButton_step s Click) = timers s @ [(2000, ResetLoading)]
     \<and> WatchDemoButton_step (WatchDemoButton_step s Click) (Timeout (length (timers s))) = s)
   \<and> (\<forall>s. \<not> isLoading s \<and> \<not> isNotified s \<longrightarrow>
       isLoading (NotifyMeButton_step s Click)
     \<and> timers (NotifyMeButton_step s Click) = timers s @ [(1500, FinishLoading)]
     \<and> \<not> isLoading (NotifyMeButton_step (NotifyMeButton_step s Click) (Timeout (length (timers s)))))
   \<and> (\<forall>(s :: 'e signout_button) e. \<not> isLoading s \<longrightarrow> \<not> isLoading (SignOutButton_click s (Rejected e)))
   \<and> (\<forall>(s :: 'e signout_button) res outs. \<not> isLoading s \<and> (\<forall>e. res \<noteq> Rejected e) \<longrightarrow>
       isLoading (foldl SignOutButton_click (SignOutButton_click s res) outs))
   \<and> (\<forall>s evs. isLoading (foldl GetStartedButton_step (GetStartedButton_step s Click) evs))
   \<and> (\<forall>s evs. isLoading (foldl SignInButton_step (SignInButton_step s Click) evs))"
proof (intro conjI allI impI)
  fix s :: "watch_cb timed_button" assume "\<not> isLoading s"
  then show "isLoading (WatchDemoButton_step s Click)"
    and "timers (WatchDemoButton_step s Click) = timers s @ [(2000, ResetLoading)]"
    and "WatchDemoButton_step (WatchDemoButton_step s Click) (Timeout (length (timers s))) = s"
    by (simp_all add: WatchDemoButton_step_def WatchDemoButton_handleClick_def fire_def
        WatchDemoButton_run_def)
next
  fix s :: notify_button assume "\<not> isLoading s \<and> \<not> isNotified s"
  then show "isLoading (NotifyMeButton_step s Click)"
    and "timers (NotifyMeButton_step s Click) = timers s @ [(1500, FinishLoading)]"
    and "\<not> isLoading (NotifyMeButton_step (NotifyMeButton_step s Click) (Timeout (length (timers s))))"
    by (simp_all add: NotifyMeButton_step_def handleNotifyMe_def fire_def NotifyMeButton_run_def)
next
  fix s :: "'e signout_button" and e assume "\<not> isLoading s"
  then show "\<not> isLoading (SignOutButton_click s (Rejected e))"
    by (simp add: SignOutButton_click_def handleSignOut_def)
next
  fix s :: "'e signout_button" and res :: "'e outcome" and outs
  assume a: "\<not> isLoading s \<and> (\<forall>e. res \<noteq> Rejected e)"
  then have "isLoading (SignOutButton_click s res)"
    by (cases res) (simp_all add: SignOutButton_click_def handleSignOut_def)
  then show "isLoading (foldl SignOutButton_click (SignOutButton_click s res) outs)"
    by (simp add: SignOutButton_disabled)
next
  fix s evs
  have "isLoading (GetStartedButton_step s Click)"
    by (simp add: GetStartedButton_step_def GetStartedButton_handleClick_def)
  then show "isLoading (foldl GetStartedButton_step (GetStartedButton_step s Click) evs)"
    by (rule GetStartedButton_stays_loading)
next
  fix s evs
  have "isLoading (SignInButton_step s Click)"
    by (simp add: SignInButton_step_def SignInButton_handleClick_def)
  then show "isLoading (foldl SignInButton_step (SignInButton_step s Click) evs)"
    by (rule SignInButton_stays_loading)
qed

theorem loading_flag_resets_witness:
  "\<not> isLoading WatchDemoButton_init
   \<and> WatchDemoButton_step WatchDemoButton_init Click = \<lparr>isLoading = True, timers = [(2000, ResetLoading)]\<rparr>
   \<and> WatchDemoButton_step (WatchDemoButton_step WatchDemoButton_init Click) (Timeout 0) =
       WatchDemoButton_init
   \<and> isLoading (foldl SignOutButton_click (SignOutButton_click (SignOutButton_init :: unit signout_button) Resolved)
        [Rejected (), Resolved])"
proof -
  have a: "\<not> isLoading WatchDemoButton_init"
    by (simp add: WatchDemoButton_init_def)
  have b: "\<not> isLoading (SignOutButton_init :: unit signout_button) \<and> (\<forall>e. Resolved \<noteq> Rejected (e :: unit))"
    by (simp add: SignOutButton_init_def)
  note t = loading_flag_resets [where ?'e = unit]
  from t a have "isLoading (WatchDemoButton_step WatchDemoButton_init Click)
     \<and> timers (WatchDemoButton_step WatchDemoButton_init Click) =
         timers WatchDemoButton_init @ [(2000, ResetLoading)]
     \<and> WatchDemoButton_step (WatchDemoButton_step WatchDemoButton_init Click)
         (Timeout (length (timers WatchDemoButton_init))) = WatchDemoButton_init"
    by blast
  moreover from t b have "isLoading (foldl SignOutButton_click
        (SignOutButton_click (SignOutButton_init :: unit signout_button) Resolved) [Rejected (), Resolved])"
    by blast
  ultimately show ?thesis
    using a by (simp add: WatchDemoButton_init_def)
qed

lemma teardown_passes_on:
  assumes "Canvas \<notin> set (container_children w)"
  shows "teardown w =
         (Some NotFoundError,
          w\<lparr>observing := False,
            window_listeners := remove1 (''pointermove'', OnPointerMove) (window_listeners w),
            animationLoop_set := False,
            renderer_disposed := True,
            pmrem_disposed := True\<rparr>)"
  using assms by (simp add: teardown_def removeChild_def removeEventListener_def Let_def)

text \<open>
  C5. When \<open>signOut\<close> throws \<open>e\<close>, \<open>handleSignOut\<close> leaves the loading flag false and has
  appended \<open>Sign out error:\<close> with \<open>e\<close> to the console. When it does not throw, the flag is
  left set, nothing is logged, and since the button is then disabled no later click
  changes the state. Everywhere else a failure is passed on as it is: \<open>Home\<close> and
  \<open>ComingSoon\<close> reject with \<open>e\<close> exactly when \<open>auth()\<close> does, a rejection of \<open>signIn\<close> in
  the \<open>SignIn\<close> page, and nothing else, stays unhandled, a failure to construct the
  renderer ends the body of the cube's effect, and the cube's cleanup ends with the
  \<open>NotFoundError\<close> of \<open>removeChild\<close>, after its first five steps, exactly when the
  canvas is not a child of the container. The handlers and callbacks of the four other buttons and the
  callbacks of the cube call nothing that can fail: they are the total functions above,
  without an outcome among their arguments.
\<close>

theorem signOut_failure_is_handled:
  "(\<forall>(s :: 'e signout_button) e.
      \<not> isLoading (handleSignOut (Rejected e) s)
    \<and> console (handleSignOut (Rejected e) s) = console s @ [(''Sign out error:'', e)])
   \<and> (\<forall>(s :: 'e signout_button) res. (\<forall>e. res \<noteq> Rejected e) \<longrightarrow>
        isLoading (handleSignOut res s)
      \<and> console (handleSignOut res s) = console s
      \<and> (\<forall>outs. foldl SignOutButton_click (handleSignOut res s) outs = handleSignOut res s))
   \<and> (\<forall>awaited (e :: 'e). Home_page awaited = Inl e \<longleftrightarrow> awaited = Inl e)
   \<and> (\<forall>awaited (e :: 'e). ComingSoon_page awaited = Inl e \<longleftrightarrow> awaited = Inl e)
   \<and> (\<forall>res (e :: 'e). snd (SignIn_effect res) = Some e \<longleftrightarrow> res = Rejected e)
   \<and> (\<forall>(e :: 'e) (w :: 'a outside_scheme). HeroCube_effect (Some e) w = (Some e, w))
   \<and> (\<forall>w :: 'a outside_scheme.
        fst (teardown w) = (if Canvas \<in> set (container_children w) then None else Some NotFoundError))
   \<and> (\<forall>w :: 'a outside_scheme. Canvas \<notin> set (container_children w) \<longrightarrow>
        teardown w =
          (Some NotFoundError,
           w\<lparr>observing := False,
             window_listeners := remove1 (''pointermove'', OnPointerMove) (window_listeners w),
             animationLoop_set := False,
             renderer_disposed := True,
             pmrem_disposed := True\<rparr>))"
proof (intro conjI allI impI)
  fix s :: "'e signout_button" and e
  show "\<not> isLoading (handleSignOut (Rejected e) s)"
    and "console (handleSignOut (Rejected e) s) = console s @ [(''Sign out error:'', e)]"
    by (simp_all add: handleSignOut_def)
next
  fix s :: "'e signout_button" and res :: "'e outcome" and outs
  assume a: "\<forall>e. res \<noteq> Rejected e"
  then show l: "isLoading (handleSignOut res s)"
    by (cases res) (simp_all add: handleSignOut_def)
  from a show "console (handleSignOut res s) = console s"
    by (cases res) (simp_all add: handleSignOut_def)
  from l show "foldl SignOutButton_click (handleSignOut res s) outs = handleSignOut res s"
    by (rule SignOutButton_disabled)
next
  fix awaited :: "'e + session option" and e :: 'e
  show "Home_page awaited = Inl e \<longleftrightarrow> awaited = Inl e"
    by (cases awaited) (simp_all add: Home_page_def)
  show "ComingSoon_page awaited = Inl e \<longleftrightarrow> awaited = Inl e"
    by (cases awaited) (simp_all add: ComingSoon_page_def)
next
  fix res :: "'e outcome" and e :: 'e
  show "snd (SignIn_effect res) = Some e \<longleftrightarrow> res = Rejected e"
    by (cases res) (simp_all add: SignIn_effect_def)
next
  fix w :: "'a outside_scheme"
  show "fst (teardown w) = (if Canvas \<in> set (container_children w) then None else Some NotFoundError)"
    by (simp add: teardown_def removeChild_def removeEventListener_def Let_def)
next
  fix e :: 'e and w :: "'a outside_scheme"
  show "HeroCube_effect (Some e) w = (Some e, w)" by (simp add: HeroCube_effect_def)
next
  fix w :: "'a outside_scheme"
  assume "Canvas \<notin> set (container_children w)"
  then show "teardown w =
          (Some NotFoundError,
           w\<lparr>observing := False,
             window_listeners := remove1 (''pointermove'', OnPointerMove) (window_listeners w),
             animationLoop_set := False,
             renderer_disposed := True,
             pmrem_disposed := True\<rparr>)"
    by (rule teardown_passes_on)
qed

theorem signOut_failure_is_handled_witness:
  "(\<forall>e. (Resolved :: string outcome) \<noteq> Rejected e)
   \<and> handleSignOut (Rejected ''network'') SignOutButton_init =
       \<lparr>isLoading = False, console = [(''Sign out error:'', ''network'')]\<rparr>
   \<and> foldl SignOutButton_click (handleSignOut Resolved (SignOutButton_init :: string signout_button))
        [Rejected ''network''] =
       \<lparr>isLoading = True, console = []\<rparr>
   \<and> Canvas \<notin> set [OtherNode 0]
   \<and> teardown
       \<lparr>observing = True, window_listeners = [(''pointermove'', OnPointerMove)], animationLoop_set = True,
        renderer_disposed = False, pmrem_disposed = False, envTexture_disposed = False,
        geometry_disposed = False, material_disposed = False, container_children = [OtherNode 0],
        rendererRef_current = Some Canvas\<rparr> =
      (Some NotFoundError,
       \<lparr>observing = False, window_listeners = [], animationLoop_set = False,
        renderer_disposed = True, pmrem_disposed = True, envTexture_disposed = False,
        geometry_disposed = False, material_disposed = False, container_children = [OtherNode 0],
        rendererRef_current = Some Canvas\<rparr>)"
proof -
  note t = signOut_failure_is_handled [where ?'e = string and ?'a = unit]
  note t1 = t [THEN conjunct1]
  note t2 = t [THEN conjunct2, THEN conjunct1]
  note t8 = t [THEN conjunct2, THEN conjunct2, THEN conjunct2, THEN conjunct2, THEN conjunct2,
               THEN conjunct2, THEN conjunct2]
  have r: "\<forall>e. (Resolved :: string outcome) \<noteq> Rejected e" by simp
  from t1 have a: "\<not> isLoading (handleSignOut (Rejected ''network'') (SignOutButton_init :: string signout_button))
    \<and> console (handleSignOut (Rejected ''network'') (SignOutButton_init :: string signout_button)) =
        console (SignOutButton_init :: string signout_button) @ [(''Sign out error:'', ''network'')]"
    by blast
  from t2 r have b: "isLoading (handleSignOut Resolved (SignOutButton_init :: string signout_button))
      \<and> console (handleSignOut Resolved (SignOutButton_init :: string signout_button)) =
          console (SignOutButton_init :: string signout_button)
      \<and> foldl SignOutButton_click (handleSignOut Resolved (SignOutButton_init :: string signout_button))
          [Rejected ''network''] = handleSignOut Resolved (SignOutButton_init :: string signout_button)"
    by blast
  define w :: outside where "w =
       \<lparr>observing = True, window_listeners = [(''pointermove'', OnPointerMove)], animationLoop_set = True,
        renderer_disposed = False, pmrem_disposed = False, envTexture_disposed = False,
        geometry_disposed = False, material_disposed = False, container_children = [OtherNode 0],
        rendererRef_current = Some Canvas\<rparr>"
  have c: "Canvas \<notin> set (container_children w)" by (simp add: w_def)
  from t8 c have d: "teardown w =
          (Some NotFoundError,
           w\<lparr>observing := False,
             window_listeners := remove1 (''pointermove'', OnPointerMove) (window_listeners w),
             animationLoop_set := False,
             renderer_disposed := True,
             pmrem_disposed := True\<rparr>)"
    by blast
  from a b r d show ?thesis
    unfolding w_def by (simp add: SignOutButton_init_def)
qed

lemma NotifyMeButton_step_closed:
  assumes "s \<in> {NotifyMeButton_init, NotifyMeButton_loading, NotifyMeButton_notified}"
  shows "NotifyMeButton_step s ev \<in> {NotifyMeButton_init, NotifyMeButton_loading, NotifyMeButton_notified}"
proof (cases ev)
  case Click
  with assms show ?thesis
    by (auto simp: NotifyMeButton_step_def handleNotifyMe_def NotifyMeButton_init_def
        NotifyMeButton_loading_def NotifyMeButton_notified_def)
next
  case (Timeout n)
  show ?thesis
  proof (cases n)
    case 0
    with Timeout assms show ?thesis
      by (auto simp: NotifyMeButton_step_def fire_def NotifyMeButton_run_def NotifyMeButton_init_def
          NotifyMeButton_loading_def NotifyMeButton_notified_def)
  next
    case (Suc m)
    with Timeout assms show ?thesis
      by (auto simp: NotifyMeButton_step_def fire_def NotifyMeButton_init_def
          NotifyMeButton_loading_def NotifyMeButton_notified_def)
  qed
qed

lemma NotifyMeButton_reachable:
  "s \<in> {NotifyMeButton_init, NotifyMeButton_loading, NotifyMeButton_notified} \<Longrightarrow>
   foldl NotifyMeButton_step s evs \<in> {NotifyMeButton_init, NotifyMeButton_loading, NotifyMeButton_notified}"
proof (induction evs arbitrary: s)
  case Nil
  then show ?case by simp
next
  case (Cons ev evs)
  from Cons.IH [OF NotifyMeButton_step_closed [OF Cons.prems, of ev]] show ?case by simp
qed

text \<open>
  C10. A click on the idle \<open>NotifyMeButton\<close> gives the loading state with one timer of
  1500 ms; its expiry gives the notified state with one timer of 3000 ms; the expiry of
  that one gives the idle state again. A click while the loading flag is set changes
  nothing. Whatever the events, the component is in one of these three states, and the
  loading and the notified flag are never both set.
\<close>

theorem NotifyMeButton_cycle:
  "NotifyMeButton_step NotifyMeButton_init Click = NotifyMeButton_loading
   \<and> NotifyMeButton_step NotifyMeButton_loading (Timeout 0) = NotifyMeButton_notified
   \<and> NotifyMeButton_step NotifyMeButton_notified (Timeout 0) = NotifyMeButton_init
   \<and> (\<forall>s. isLoading s \<longrightarrow> NotifyMeButton_step s Click = s)
   \<and> (\<forall>evs. foldl NotifyMeButton_step NotifyMeButton_init evs \<in>
        {NotifyMeButton_init, NotifyMeButton_loading, NotifyMeButton_notified})
   \<and> (\<forall>evs. \<not> (isLoading (foldl NotifyMeButton_step NotifyMeButton_init evs) \<and>
                 isNotified (foldl NotifyMeButton_step NotifyMeButton_init evs)))"
proof (intro conjI allI impI)
  show "NotifyMeButton_step NotifyMeButton_init Click = NotifyMeButton_loading"
    by (simp add: NotifyMeButton_step_def handleNotifyMe_def NotifyMeButton_init_def
        NotifyMeButton_loading_def)
  show "NotifyMeButton_step NotifyMeButton_loading (Timeout 0) = NotifyMeButton_notified"
    by (simp add: NotifyMeButton_step_def fire_def NotifyMeButton_run_def
        NotifyMeButton_loading_def NotifyMeButton_notified_def)
  show "NotifyMeButton_step NotifyMeButton_notified (Timeout 0) = NotifyMeButton_init"
    by (simp add: NotifyMeButton_step_def fire_def NotifyMeButton_run_def
        NotifyMeButton_init_def NotifyMeButton_notified_def)
next
  fix s :: notify_button assume "isLoading s"
  then show "NotifyMeButton_step s Click = s"
    by (simp add: NotifyMeButton_step_def)
next
  fix evs
  show r: "foldl NotifyMeButton_step NotifyMeButton_init evs \<in>
        {NotifyMeButton_init, NotifyMeButton_loading, NotifyMeButton_notified}"
    by (rule NotifyMeButton_reachable) simp
  then show "\<not> (isLoading (foldl NotifyMeButton_step NotifyMeButton_init evs) \<and>
                 isNotified (foldl NotifyMeButton_step NotifyMeButton_init evs))"
    by (auto simp: NotifyMeButton_init_def NotifyMeButton_loading_def NotifyMeButton_notified_def)
qed

theorem NotifyMeButton_cycle_witness:
  "isLoading NotifyMeButton_loading
   \<and> NotifyMeButton_step NotifyMeButton_loading Click = NotifyMeButton_loading
   \<and> foldl NotifyMeButton_step NotifyMeButton_init [Click, Click, Timeout 0, Click, Timeout 0] =
       NotifyMeButton_init"
proof -
  have l: "isLoading NotifyMeButton_loading"
    by (simp add: NotifyMeButton_loading_def)
  note t = NotifyMeButton_cycle
  from t l have c: "NotifyMeButton_step NotifyMeButton_loading Click = NotifyMeButton_loading"
    by blast
  have n: "NotifyMeButton_step NotifyMeButton_notified Click = NotifyMeButton_notified"
    by (simp add: NotifyMeButton_step_def NotifyMeButton_notified_def)
  from t have "NotifyMeButton_step NotifyMeButton_init Click = NotifyMeButton_loading"
    and "NotifyMeButton_step NotifyMeButton_loading (Timeout 0) = NotifyMeButton_notified"
    and "NotifyMeButton_step NotifyMeButton_notified (Timeout 0) = NotifyMeButton_init"
    by blast+
  with l c n show ?thesis by simp
qed

section \<open>Properties of the cursor tracking\<close>






















end
